theory Spec2Isabelle
  imports Complex_Main "HOL-Library.Sublist"
begin

section \<open>Python values\<close>

text \<open>
  The program is a Python script (\<^verbatim>\<open>MPA.py\<close>) that reads a variant-call file through
  the PyVCF reader, classifies every record and writes it back with six more annotations.
  The reader, the writer, the logger and the argument parser are external; the model
  starts from what the reader hands to the script.

  A Python float is a finite number, an infinity or a NaN. A finite float is modelled by
  the rational number it stands for, and arithmetic on floats by exact arithmetic on
  rationals: rounding is not modelled. A comparison with a NaN is false.
\<close>

datatype pyfloat = Fin rat | PInf | NInf | NaN

text \<open>\<^verbatim>\<open>x >= t\<close> and \<open>x < t\<close> for a float \<open>x\<close> and a finite \<open>t\<close>.\<close>

fun float_ge :: "pyfloat \<Rightarrow> rat \<Rightarrow> bool" where
  "float_ge (Fin r) t = (r \<ge> t)"
| "float_ge PInf t = True"
| "float_ge NInf t = False"
| "float_ge NaN t = False"

fun float_lt :: "pyfloat \<Rightarrow> rat \<Rightarrow> bool" where
  "float_lt (Fin r) t = (r < t)"
| "float_lt PInf t = False"
| "float_lt NInf t = True"
| "float_lt NaN t = False"

text \<open>
  The first value of an annotation field, as the reader types it: \<open>None\<close> (the file's
  \<^verbatim>\<open>.\<close>), a text or a number. In a position the script passes to \<^verbatim>\<open>float()\<close>, \<open>PFloat f\<close>
  stands for every value that \<^verbatim>\<open>float()\<close> converts to \<open>f\<close> (a float, or a numeric text), and
  \<open>PStr s\<close> for a text that \<^verbatim>\<open>float()\<close> rejects with \<^verbatim>\<open>ValueError\<close>; everywhere else a value
  is itself. Strings are byte strings: the model covers ASCII text.
\<close>

datatype pyval = PNone | PStr string | PFloat pyfloat

text \<open>The exceptions of the script that nothing catches.\<close>

datatype error = KeyError | IndexError | TypeError | ValueError

definition bind :: "error + 'a \<Rightarrow> ('a \<Rightarrow> error + 'b) \<Rightarrow> error + 'b" where
  "bind m f = (case m of Inl e \<Rightarrow> Inl e | Inr v \<Rightarrow> f v)"

text \<open>\<^verbatim>\<open>float(v)\<close>, under the reading of \<^typ>\<open>pyval\<close> above.\<close>

fun py_float :: "pyval \<Rightarrow> error + pyfloat" where
  "py_float PNone = Inl TypeError"
| "py_float (PStr s) = Inl ValueError"
| "py_float (PFloat f) = Inr f"

text \<open>
  A rank flag is Python's \<^verbatim>\<open>False\<close> or an integer. \<^verbatim>\<open>False\<close> compares as \<open>0\<close>, and a flag
  is true in a condition when it is a non-zero integer.
\<close>

datatype pyflag = PFalse | PInt int

fun as_int :: "pyflag \<Rightarrow> int" where
  "as_int PFalse = 0"
| "as_int (PInt n) = n"

definition truthy :: "pyflag \<Rightarrow> bool" where
  "truthy v = (as_int v \<noteq> 0)"

section \<open>Regular expression search with literal patterns\<close>

text \<open>
  Every pattern of the script is a literal word searched with \<^verbatim>\<open>re.IGNORECASE\<close>, so
  \<^verbatim>\<open>re.search(pat, text, re.IGNORECASE)\<close> finds a match exactly when the word occurs in
  the text, letter case aside. A text that is not a string raises \<^verbatim>\<open>TypeError\<close>.
\<close>

definition ascii_lower :: "char \<Rightarrow> char" where
  "ascii_lower c =
     (case map_of (zip ''ABCDEFGHIJKLMNOPQRSTUVWXYZ'' ''abcdefghijklmnopqrstuvwxyz'') c of
        Some l \<Rightarrow> l
      | None \<Rightarrow> c)"

definition lower :: "string \<Rightarrow> string" where
  "lower s = map ascii_lower s"

definition search_ignorecase :: "string \<Rightarrow> string \<Rightarrow> bool" where
  "search_ignorecase pat txt = sublist (lower pat) (lower txt)"

fun re_search :: "string \<Rightarrow> pyval \<Rightarrow> error + bool" where
  "re_search pat (PStr s) = Inr (search_ignorecase pat s)"
| "re_search pat PNone = Inl TypeError"
| "re_search pat (PFloat f) = Inl TypeError"

text \<open>
  The specification's wording of the same test: the text case-insensitively contains
  the word when some stretch of the text equals the word after lowering both.
\<close>

definition contains_ci :: "string \<Rightarrow> string \<Rightarrow> bool" where
  "contains_ci word txt = (\<exists>pre mid post. txt = pre @ mid @ post \<and> lower mid = lower word)"

section \<open>The clinical significance classifier\<close>

definition is_clinvar_pathogenic :: "pyval \<Rightarrow> error + pyflag" where
  "is_clinvar_pathogenic clinsig =
     (if clinsig = PNone then Inr PFalse
      else
        bind (re_search ''pathogenic'' clinsig) (\<lambda>match_pathogenic.
        bind (re_search ''benign'' clinsig) (\<lambda>match_benign.
        bind (re_search ''conflicting'' clinsig) (\<lambda>match_conflicting.
          if match_pathogenic \<and> \<not> match_benign \<and> \<not> match_conflicting
          then Inr (PInt 1)
          else Inr PFalse))))"

section \<open>The record validator\<close>

text \<open>
  The header of the file is modelled by the list of the annotation names it declares
  (the keys of \<^verbatim>\<open>vcf_reader.infos\<close>). \<^verbatim>\<open>sys.exit(msg)\<close> raises \<^verbatim>\<open>SystemExit\<close>; both checks
  return \<open>Inl msg\<close> for it, and \<open>Inr ()\<close> for \<^verbatim>\<open>None\<close>.
\<close>

definition vcf_keys :: "string list" where
  "vcf_keys =
     [''ExonicFunc.refGene'',
      ''FATHMM_pred'',
      ''Func.refGene'',
      ''dbscSNV_ADA_SCORE'',
      ''dbscSNV_RF_SCORE'',
      ''dpsi_zscore'',
      ''SIFT_pred'',
      ''Polyphen2_HDIV_pred'',
      ''Polyphen2_HVAR_pred'',
      ''LRT_pred'',
      ''MutationTaster_pred'',
      ''FATHMM_pred'',
      ''PROVEAN_pred'',
      ''fathmm-MKL_coding_pred'',
      ''MetaSVM_pred'',
      ''MetaLR_pred'',
      ''CLNSIG'']"

definition annotation_message :: string where
  "annotation_message =
     ''VCF not correctly annotated. See documentation and provide a well annotated vcf (annotation with annovar).''"

definition check_annotation :: "string list \<Rightarrow> string + unit" where
  "check_annotation vcf_infos =
     (if \<not> (set vcf_keys \<subseteq> set vcf_infos) then Inl annotation_message else Inr ())"

text \<open>
  A record of the file: the reference allele, the alternate alleles, the reader's indel
  flag, and the \<^verbatim>\<open>INFO\<close> dictionary from an annotation name to the list of its values.
\<close>

record vcf_record =
  REF :: string
  ALT :: "string list"
  is_indel :: bool
  INFO :: "string \<rightharpoonup> pyval list"

text \<open>\<^verbatim>\<open>s.split(',')\<close>.\<close>

fun split_comma :: "string \<Rightarrow> string list" where
  "split_comma [] = [[]]"
| "split_comma (c # cs) =
     (if c = CHR '','' then [] # split_comma cs
      else (c # hd (split_comma cs)) # tl (split_comma cs))"

definition multi_ref_message :: string where
  "multi_ref_message =
     ''Multi references on vcf. It seems that your vcf not followed the specifications.''"

definition multi_alt_message :: string where
  "multi_alt_message =
     ''Multi allelic variant on vcf. See documentation and provide a well processed vcf (split variants).''"

definition check_split_variants :: "vcf_record \<Rightarrow> string + unit" where
  "check_split_variants record =
     (if length (split_comma (REF record)) > 1 then Inl multi_ref_message
      else if length (ALT record) > 1 then Inl multi_alt_message
      else Inr ())"

text \<open>
  \<^verbatim>\<open>record.INFO[key][0]\<close>: \<^verbatim>\<open>KeyError\<close> when the record does not carry the annotation,
  \<^verbatim>\<open>IndexError\<close> when its list of values is empty.
\<close>

definition info_first :: "vcf_record \<Rightarrow> string \<Rightarrow> error + pyval" where
  "info_first record key =
     (case INFO record key of
        None \<Rightarrow> Inl KeyError
      | Some [] \<Rightarrow> Inl IndexError
      | Some (v # vs) \<Rightarrow> Inr v)"

section \<open>The deleteriousness aggregator\<close>

text \<open>
  The score dictionary with the keys \<^verbatim>\<open>adjusted\<close>, \<^verbatim>\<open>available\<close> and \<^verbatim>\<open>deleterious\<close>; the
  ranking adds the key \<^verbatim>\<open>final_score\<close> later, so that field is \<open>None\<close> while the key is
  missing.
\<close>

record score =
  adjusted :: rat
  available :: int
  deleterious :: int
  final_score :: "rat option"

text \<open>The loop over the items of \<^verbatim>\<open>scores_impact\<close>, with its two counters.\<close>

fun count_impacts :: "(string \<times> pyval) list \<Rightarrow> int \<times> int \<Rightarrow> int \<times> int" where
  "count_impacts [] (n_deleterious, n_available) = (n_deleterious, n_available)"
| "count_impacts ((name, impact) # rest) (n_deleterious, n_available) =
     (if impact = PStr ''D'' then count_impacts rest (n_deleterious + 1, n_available + 1)
      else if impact \<noteq> PNone then count_impacts rest (n_deleterious, n_available + 1)
      else count_impacts rest (n_deleterious, n_available))"

definition calculate_adjusted_score :: "(string \<times> pyval) list \<Rightarrow> score" where
  "calculate_adjusted_score scores_impact =
     (let (n_deleterious, n_available) = count_impacts scores_impact (0, 0);
          score_adjusted =
            (if n_available > 0 then of_int n_deleterious / of_int n_available * 10 else 0)
      in \<lparr>adjusted = score_adjusted, available = n_available, deleterious = n_deleterious,
          final_score = None\<rparr>)"

section \<open>The splicing impact classifier\<close>

record splice_scores =
  ADA :: pyval
  RF :: pyval
  Zscore :: pyval

definition is_splice_impact :: "splice_scores \<Rightarrow> bool \<Rightarrow> pyval \<Rightarrow> error + pyflag" where
  "is_splice_impact splices_scores indel funcRefGene =
     bind (if ADA splices_scores \<noteq> PNone
           then bind (py_float (ADA splices_scores)) (\<lambda>f. Inr (float_ge f 0.6))
           else Inr False) (\<lambda>ADA_splice.
     bind (if RF splices_scores \<noteq> PNone
           then bind (py_float (RF splices_scores)) (\<lambda>f. Inr (float_ge f 0.6))
           else Inr False) (\<lambda>RF_splice.
     bind (if Zscore splices_scores \<noteq> PNone \<and> ADA splices_scores = PNone
              \<and> RF splices_scores = PNone
           then bind (py_float (Zscore splices_scores)) (\<lambda>f. Inr (float_lt f (- 2)))
           else Inr False) (\<lambda>Zscore_splice.
     bind (re_search ''splicing'' funcRefGene) (\<lambda>match_splicing.
       let home_splice = (indel \<and> match_splicing) in
       if RF_splice then Inr (PInt 3)
       else if ADA_splice then Inr (PInt 4)
       else if Zscore_splice then Inr (PInt 5)
       else if home_splice then Inr (PInt 6)
       else Inr PFalse))))"

section \<open>The exonic consequence classifier\<close>

definition is_stop_impact :: "pyval \<Rightarrow> error + pyflag" where
  "is_stop_impact exonicFuncRefGene =
     bind (re_search ''stoploss'' exonicFuncRefGene) (\<lambda>match_stoploss.
     bind (re_search ''stopgain'' exonicFuncRefGene) (\<lambda>match_stopgain.
       if match_stopgain \<or> match_stoploss then Inr (PInt 2) else Inr PFalse))"

definition is_frameshift_impact :: "pyval \<Rightarrow> error + pyflag" where
  "is_frameshift_impact exonicFuncRefGene =
     bind (re_search ''frameshift'' exonicFuncRefGene) (\<lambda>match_frameshift.
     bind (re_search ''nonframeshift'' exonicFuncRefGene) (\<lambda>match_nonframeshift.
       if match_frameshift \<and> \<not> match_nonframeshift then Inr (PInt 2) else Inr PFalse))"

definition is_missense_impact :: "pyval \<Rightarrow> error + pyflag" where
  "is_missense_impact exonicFuncRefGene =
     bind (re_search ''nonsynonymous_SNV'' exonicFuncRefGene) (\<lambda>match_missense.
       if match_missense then Inr (PInt 7) else Inr PFalse)"

definition is_unknown_impact :: "pyval \<Rightarrow> error + pyflag" where
  "is_unknown_impact exonicFuncRefGene =
     bind (re_search ''unknown'' exonicFuncRefGene) (\<lambda>match_unknown.
       if match_unknown then Inr (PInt 8) else Inr PFalse)"

section \<open>Processing one record\<close>

text \<open>
  A dictionary whose order matters is an association list. The script runs under
  Python 3.6, where a dictionary keeps its keys in insertion order: an assignment to a
  key that is there keeps the key's place, a new key goes to the end.
\<close>

fun dict_set :: "('k \<times> 'v) list \<Rightarrow> 'k \<Rightarrow> 'v \<Rightarrow> ('k \<times> 'v) list" where
  "dict_set [] k v = [(k, v)]"
| "dict_set ((k', v') # rest) k v =
     (if k' = k then (k, v) # rest else (k', v') # dict_set rest k v)"

text \<open>
  A dictionary display \<^verbatim>\<open>{name: record.INFO[key][0], ...}\<close> evaluates its entries from
  left to right and stops at the first one that raises.
\<close>

fun read_fields :: "vcf_record \<Rightarrow> (string \<times> string) list \<Rightarrow> error + (string \<times> pyval) list" where
  "read_fields record [] = Inr []"
| "read_fields record ((name, key) # rest) =
     bind (info_first record key) (\<lambda>v.
     bind (read_fields record rest) (\<lambda>vs. Inr ((name, v) # vs)))"

definition impacts_fields :: "(string \<times> string) list" where
  "impacts_fields =
     [(''SIFT'', ''SIFT_pred''),
      (''HDIV'', ''Polyphen2_HDIV_pred''),
      (''HVAR'', ''Polyphen2_HVAR_pred''),
      (''LRT'', ''LRT_pred''),
      (''MutationTaster'', ''MutationTaster_pred''),
      (''FATHMM'', ''FATHMM_pred''),
      (''PROVEAN'', ''PROVEAN_pred''),
      (''MKL'', ''fathmm-MKL_coding_pred''),
      (''SVM'', ''MetaSVM_pred''),
      (''LR'', ''MetaLR_pred'')]"

definition read_impacts_scores :: "vcf_record \<Rightarrow> error + (string \<times> pyval) list" where
  "read_impacts_scores record = read_fields record impacts_fields"

definition read_splices_scores :: "vcf_record \<Rightarrow> error + splice_scores" where
  "read_splices_scores record =
     bind (info_first record ''dbscSNV_ADA_SCORE'') (\<lambda>ada.
     bind (info_first record ''dbscSNV_RF_SCORE'') (\<lambda>rf.
     bind (info_first record ''dpsi_zscore'') (\<lambda>z.
       Inr \<lparr>ADA = ada, RF = rf, Zscore = z\<rparr>)))"

definition meta_impact_init :: "(string \<times> pyflag) list" where
  "meta_impact_init =
     [(''clinvar_pathogenicity'', PFalse),
      (''splice_impact'', PFalse),
      (''stop_impact'', PFalse),
      (''frameshift_impact'', PFalse),
      (''unknown_impact'', PFalse)]"

text \<open>
  The impact flags of a record: the part of \<^verbatim>\<open>process\<close> from the display of
  \<^verbatim>\<open>meta_impact\<close> to the end of the exonic branch. The condition of the branch is
  Python's \<^verbatim>\<open>and\<close>: the exonic function is only read when the region matches.
\<close>

definition meta_impact_of :: "vcf_record \<Rightarrow> splice_scores \<Rightarrow> error + (string \<times> pyflag) list" where
  "meta_impact_of record splices_scores =
     bind (info_first record ''CLNSIG'') (\<lambda>clnsig.
     bind (is_clinvar_pathogenic clnsig) (\<lambda>clinvar.
     bind (info_first record ''Func.refGene'') (\<lambda>func.
     bind (is_splice_impact splices_scores (is_indel record) func) (\<lambda>splice.
     bind (re_search ''exonic'' func) (\<lambda>match_exonic.
     bind (if match_exonic
           then bind (info_first record ''ExonicFunc.refGene'') (\<lambda>e. Inr (e \<noteq> PNone))
           else Inr False) (\<lambda>exonic.
     let meta = dict_set (dict_set meta_impact_init ''clinvar_pathogenicity'' clinvar)
                  ''splice_impact'' splice
     in
       if exonic then
         bind (info_first record ''ExonicFunc.refGene'') (\<lambda>e.
         bind (is_stop_impact e) (\<lambda>stop.
         bind (is_frameshift_impact e) (\<lambda>frameshift.
         bind (is_missense_impact e) (\<lambda>missense.
         bind (is_unknown_impact e) (\<lambda>unknown.
           Inr (dict_set (dict_set (dict_set (dict_set meta
                  ''stop_impact'' stop)
                  ''frameshift_impact'' frameshift)
                  ''missense_impact'' missense)
                  ''unknown_impact'' unknown))))))
       else Inr meta))))))"

text \<open>
  The ranking loop. Its state is the rank so far, the text of \<^verbatim>\<open>record.INFO['MPA_impact']\<close>
  and the score dictionary. \<open>ranking_step\<close> is the body of the loop for one category and
  its flag, \<open>ranking_loop\<close> the loop over the items of \<^verbatim>\<open>meta_impact\<close>.
\<close>

record ranking =
  rank :: pyflag
  impact_text :: string
  scores :: score

definition ranking_step :: "string \<Rightarrow> pyflag \<Rightarrow> ranking \<Rightarrow> ranking" where
  "ranking_step impact flag st =
     (if truthy flag then
        (let st1 = st\<lparr>impact_text := impact_text st @ impact @ '',''\<rparr> in
         if as_int flag < as_int (rank st1) \<or> \<not> truthy (rank st1) then
           st1\<lparr>rank := flag,
               scores := (scores st1)\<lparr>final_score :=
                 Some (if impact = ''unknown_impact'' \<or> impact = ''missense_impact''
                       then adjusted (scores st1) else 10)\<rparr>\<rparr>
         else st1)
      else st)"

fun ranking_loop :: "(string \<times> pyflag) list \<Rightarrow> ranking \<Rightarrow> ranking" where
  "ranking_loop [] st = st"
| "ranking_loop ((impact, flag) # rest) st = ranking_loop rest (ranking_step impact flag st)"

text \<open>The record as it is written: the input record and the six new annotations.\<close>

record annotated =
  variant :: vcf_record
  MPA_impact :: string
  MPA_ranking :: pyflag
  MPA_adjusted :: rat
  MPA_available :: int
  MPA_deleterious :: int
  MPA_final_score :: "rat option"

text \<open>
  The ranking of a record, from \<^verbatim>\<open>rank = False\<close> to the assignments of the six
  annotations. \<^verbatim>\<open>s[:-1]\<close> drops the last character of a string.
\<close>

definition rank_record :: "vcf_record \<Rightarrow> (string \<times> pyflag) list \<Rightarrow> score \<Rightarrow> annotated" where
  "rank_record record meta_impact adjusted_score =
     (let st = ranking_loop meta_impact
                 \<lparr>rank = PFalse, impact_text = [], scores = adjusted_score\<rparr>;
          st' = (if \<not> truthy (rank st)
                 then \<lparr>rank = PInt 8, impact_text = ''NULL,'',
                       scores = (scores st)\<lparr>final_score := Some (adjusted (scores st))\<rparr>\<rparr>
                 else st)
      in \<lparr>variant = record,
          MPA_impact = butlast (impact_text st'),
          MPA_ranking = rank st',
          MPA_adjusted = adjusted (scores st'),
          MPA_available = available (scores st'),
          MPA_deleterious = deleterious (scores st'),
          MPA_final_score = final_score (scores st')\<rparr>)"

definition process_record :: "vcf_record \<Rightarrow> error + annotated" where
  "process_record record =
     bind (read_impacts_scores record) (\<lambda>impacts_scores.
     bind (read_splices_scores record) (\<lambda>splices_scores.
     let adjusted_score = calculate_adjusted_score impacts_scores in
     bind (meta_impact_of record splices_scores) (\<lambda>meta_impact.
       Inr (rank_record record meta_impact adjusted_score))))"

section \<open>The run\<close>

text \<open>
  The effects of a run are the calls to the logger at the levels \<^verbatim>\<open>INFO\<close> and \<^verbatim>\<open>ERROR\<close>,
  in order, and the records handed to the writer, in order. The text of a record
  (\<^verbatim>\<open>str(record)\<close>) is modelled by the record itself.
\<close>

datatype log_entry = Log_info string | Log_error string | Log_error_record vcf_record

record run_state =
  log :: "log_entry list"
  written :: "annotated list"

text \<open>
  The loop over the records. \<^verbatim>\<open>SystemExit\<close> from the check of a record is caught; any
  other exception leaves the loop and the function.
\<close>

fun process_records :: "vcf_record list \<Rightarrow> run_state \<Rightarrow> error option \<times> run_state" where
  "process_records [] st = (None, st)"
| "process_records (record # rest) st =
     (case check_split_variants record of
        Inl e \<Rightarrow>
          process_records rest (st\<lparr>log := log st @ [Log_error_record record, Log_error e]\<rparr>)
      | Inr u \<Rightarrow>
          (case process_record record of
             Inl err \<Rightarrow> (Some err, st)
           | Inr out \<Rightarrow> process_records rest (st\<lparr>written := written st @ [out]\<rparr>)))"

definition mpa_infos :: "string list" where
  "mpa_infos =
     [''MPA_adjusted'', ''MPA_available'', ''MPA_deleterious'', ''MPA_final_score'',
      ''MPA_impact'', ''MPA_ranking'']"

text \<open>\<^verbatim>\<open>infos.update({key: ...})\<close>, on the keys of the header.\<close>

definition infos_update :: "string list \<Rightarrow> string \<Rightarrow> string list" where
  "infos_update infos key = (if key \<in> set infos then infos else infos @ [key])"

text \<open>What \<^verbatim>\<open>process\<close> does at its end: it returns a value, or an exception leaves it.\<close>

datatype outcome = Returned "int option" | Raised error

definition process :: "string list \<Rightarrow> vcf_record list \<Rightarrow> outcome \<times> run_state" where
  "process header records =
     (let infos = foldl infos_update header mpa_infos;
          st = \<lparr>log = [Log_info ''Read VCF'', Log_info ''Check vcf annotations''],
                written = []\<rparr>
      in case check_annotation infos of
           Inl e \<Rightarrow> (Returned (Some 1), st\<lparr>log := log st @ [Log_error e]\<rparr>)
         | Inr u \<Rightarrow>
             (case process_records records
                     (st\<lparr>log := log st @ [Log_info ''Read the each variants'']\<rparr>) of
                (Some err, st') \<Rightarrow> (Raised err, st')
              | (None, st') \<Rightarrow> (Returned None, st')))"

text \<open>
  The script's main block, after the arguments are parsed: the value \<^verbatim>\<open>process\<close> returns
  is not used. The interpreter ends with status \<open>0\<close> when the script reaches its end and
  with status \<open>1\<close> when an exception is not caught.
\<close>

fun join :: "string \<Rightarrow> string list \<Rightarrow> string" where
  "join sep [] = []"
| "join sep [x] = x"
| "join sep (x # y # ys) = x @ sep @ join sep (y # ys)"

record finished =
  exit_status :: int
  run_log :: "log_entry list"
  run_written :: "annotated list"

definition main :: "string list \<Rightarrow> string list \<Rightarrow> vcf_record list \<Rightarrow> finished" where
  "main argv header records =
     (let start = [Log_info ''Start MPA annotation'',
                   Log_info (''Command: '' @ join '' '' argv)]
      in case process header records of
           (Returned r, st) \<Rightarrow>
             \<lparr>exit_status = 0,
              run_log = start @ log st @ [Log_info ''End MPA annotation''],
              run_written = written st\<rparr>
         | (Raised err, st) \<Rightarrow>
             \<lparr>exit_status = 1, run_log = start @ log st, run_written = written st\<rparr>)"

section \<open>Sequencing computations that may raise\<close>

lemma bind_Inr_iff: "bind m f = Inr y \<longleftrightarrow> (\<exists>x. m = Inr x \<and> f x = Inr y)"
  by (cases m) (simp_all add: bind_def)

lemma bind_Inr [simp]: "bind (Inr x) f = f x"
  by (simp add: bind_def)

lemma bind_Inl [simp]: "bind (Inl e) f = Inl e"
  by (simp add: bind_def)

section \<open>Case-insensitive search\<close>

lemma search_ignorecase_iff: "search_ignorecase word txt = contains_ci word txt"
proof
  assume "search_ignorecase word txt"
  then obtain ps ss where eq: "lower txt = ps @ lower word @ ss"
    by (auto simp: search_ignorecase_def sublist_def)
  let ?n = "length ps" and ?m = "length word"
  have len: "length txt = ?n + ?m + length ss"
    using arg_cong [OF eq, of length] by (simp add: lower_def)
  have split: "txt = take ?n txt @ take ?m (drop ?n txt) @ drop ?m (drop ?n txt)"
    by (metis append_take_drop_id)
  have "lower (take ?m (drop ?n txt)) = take ?m (drop ?n (lower txt))"
    by (simp add: lower_def take_map drop_map)
  also have "\<dots> = take ?m (lower word @ ss)"
    by (simp add: eq)
  also have "\<dots> = lower word"
    by (simp add: lower_def)
  finally show "contains_ci word txt"
    unfolding contains_ci_def using split by blast
next
  assume "contains_ci word txt"
  then obtain pre mid post where "txt = pre @ mid @ post" "lower mid = lower word"
    by (auto simp: contains_ci_def)
  then have "lower txt = lower pre @ lower word @ lower post"
    by (simp add: lower_def)
  then show "search_ignorecase word txt"
    unfolding search_ignorecase_def sublist_def by blast
qed

section \<open>The clinical significance classifier: its rule\<close>

text \<open>
  Claim C4. For a clinical significance that is a string or null, the classifier returns
  rank 1 exactly when the string case-insensitively contains "pathogenic" and contains
  neither "benign" nor "conflicting"; in every other case, null included, it returns
  \<^verbatim>\<open>False\<close>.
\<close>

theorem is_clinvar_pathogenic_rule:
  "is_clinvar_pathogenic PNone = Inr PFalse \<and>
   is_clinvar_pathogenic (PStr s) =
     Inr (if contains_ci ''pathogenic'' s \<and> \<not> contains_ci ''benign'' s
             \<and> \<not> contains_ci ''conflicting'' s
          then PInt 1 else PFalse)"
proof
  show "is_clinvar_pathogenic PNone = Inr PFalse"
    by (simp add: is_clinvar_pathogenic_def)
  have "is_clinvar_pathogenic (PStr s) =
     Inr (if search_ignorecase ''pathogenic'' s \<and> \<not> search_ignorecase ''benign'' s
             \<and> \<not> search_ignorecase ''conflicting'' s
          then PInt 1 else PFalse)"
    by (simp add: is_clinvar_pathogenic_def)
  then show "is_clinvar_pathogenic (PStr s) =
     Inr (if contains_ci ''pathogenic'' s \<and> \<not> contains_ci ''benign'' s
             \<and> \<not> contains_ci ''conflicting'' s
          then PInt 1 else PFalse)"
    unfolding search_ignorecase_iff .
qed

theorem is_clinvar_pathogenic_rule_witness:
  "is_clinvar_pathogenic (PStr ''Pathogenic'') = Inr (PInt 1) \<and>
   contains_ci ''pathogenic'' ''Pathogenic'' \<and>
   \<not> contains_ci ''benign'' ''Pathogenic'' \<and>
   \<not> contains_ci ''conflicting'' ''Pathogenic''"
proof -
  have a: "is_clinvar_pathogenic (PStr ''Pathogenic'') = Inr (PInt 1)"
    by code_simp
  from a is_clinvar_pathogenic_rule [of "''Pathogenic''"]
  have "contains_ci ''pathogenic'' ''Pathogenic'' \<and> \<not> contains_ci ''benign'' ''Pathogenic''
      \<and> \<not> contains_ci ''conflicting'' ''Pathogenic''"
    by (simp split: if_splits)
  then show ?thesis using a by simp
qed

text \<open>The examples of the specification.\<close>

lemma is_clinvar_pathogenic_examples:
  "is_clinvar_pathogenic (PStr ''Pathogenic'') = Inr (PInt 1)"
  "is_clinvar_pathogenic (PStr ''Pathogenic/Benign'') = Inr PFalse"
  "is_clinvar_pathogenic (PStr ''Conflicting_interpretations_of_pathogenicity'') = Inr PFalse"
  "is_clinvar_pathogenic PNone = Inr PFalse"
  by code_simp+

section \<open>The deleteriousness aggregator: counts and bounds\<close>

lemma count_impacts_acc:
  "count_impacts xs (d, a) =
     (d + int (length (filter (\<lambda>(name, v). v = PStr ''D'') xs)),
      a + int (length (filter (\<lambda>(name, v). v \<noteq> PNone) xs)))"
  by (induction xs arbitrary: d a) auto

lemma deleterious_le_available:
  "length (filter (\<lambda>(name, v). v = PStr ''D'') xs)
     \<le> length (filter (\<lambda>(name :: string, v). v \<noteq> PNone) xs)"
  by (induction xs) auto

lemma ratio_le_10: "d \<le> a \<Longrightarrow> 0 < a \<Longrightarrow> (of_nat d :: rat) / of_nat a * 10 \<le> 10"
proof -
  assume "d \<le> a" "0 < a"
  then have "(of_nat d :: rat) \<le> of_nat a" "(0 :: rat) < of_nat a"
    by simp_all
  then have "(of_nat d :: rat) / of_nat a \<le> 1"
    by (simp add: divide_le_eq_1)
  then have "(of_nat d :: rat) / of_nat a * 10 \<le> 1 * 10"
    by (intro mult_right_mono) simp_all
  then show ?thesis
    by simp
qed

text \<open>
  Claim C2. For a predictor call set of 10 entries, \<open>deleterious\<close> is the number of entries
  equal to "D", \<open>available\<close> the number of entries that are not null ("D" included), and
  \<open>adjusted\<close> is \<open>deleterious / available * 10\<close> when \<open>available > 0\<close> and \<open>0\<close> otherwise;
  so \<open>0 \<le> deleterious \<le> available \<le> 10\<close> and \<open>adjusted\<close> lies between 0 and 10.
\<close>

theorem calculate_adjusted_score_counts:
  "length scores_impact = 10 \<Longrightarrow>
   (let r = calculate_adjusted_score scores_impact in
      deleterious r = int (length (filter (\<lambda>(name, v). v = PStr ''D'') scores_impact)) \<and>
      available r = int (length (filter (\<lambda>(name, v). v \<noteq> PNone) scores_impact)) \<and>
      adjusted r =
        (if available r > 0 then of_int (deleterious r) / of_int (available r) * 10 else 0) \<and>
      0 \<le> deleterious r \<and> deleterious r \<le> available r \<and> available r \<le> 10 \<and>
      0 \<le> adjusted r \<and> adjusted r \<le> 10)"
proof -
  assume len: "length scores_impact = 10"
  let ?d = "length (filter (\<lambda>(name, v). v = PStr ''D'') scores_impact)"
  let ?a = "length (filter (\<lambda>(name, v). v \<noteq> PNone) scores_impact)"
  let ?r = "calculate_adjusted_score scores_impact"
  have d: "deleterious ?r = int ?d" and a: "available ?r = int ?a"
    by (simp_all add: calculate_adjusted_score_def count_impacts_acc)
  have adj: "adjusted ?r = (if int ?a > 0 then of_int (int ?d) / of_int (int ?a) * 10 else 0)"
    by (simp add: calculate_adjusted_score_def count_impacts_acc)
  have da: "?d \<le> ?a"
    by (rule deleterious_le_available)
  have "?a \<le> length scores_impact"
    by (rule length_filter_le)
  with len have a10: "?a \<le> 10"
    by simp
  have lo: "0 \<le> adjusted ?r"
    unfolding adj by simp
  have hi: "adjusted ?r \<le> 10"
  proof (cases "?a = 0")
    case True
    then show ?thesis unfolding adj by simp
  next
    case False
    then show ?thesis
      unfolding adj using ratio_le_10 [OF da] by simp
  qed
  show ?thesis
    unfolding Let_def using d a adj da a10 lo hi by simp
qed

theorem calculate_adjusted_score_counts_witness:
  "length [(''SIFT'', PStr ''D''), (''HDIV'', PStr ''D''), (''HVAR'', PStr ''D''),
     (''LRT'', PStr ''D''), (''MutationTaster'', PStr ''D''), (''FATHMM'', PStr ''T''),
     (''PROVEAN'', PStr ''N''), (''MKL'', PStr ''N''), (''SVM'', PNone), (''LR'', PNone)] = 10 \<and>
   calculate_adjusted_score [(''SIFT'', PStr ''D''), (''HDIV'', PStr ''D''), (''HVAR'', PStr ''D''),
     (''LRT'', PStr ''D''), (''MutationTaster'', PStr ''D''), (''FATHMM'', PStr ''T''),
     (''PROVEAN'', PStr ''N''), (''MKL'', PStr ''N''), (''SVM'', PNone), (''LR'', PNone)]
   = \<lparr>adjusted = 25 / 4, available = 8, deleterious = 5, final_score = None\<rparr>"
  using calculate_adjusted_score_counts
    [of "[(''SIFT'', PStr ''D''), (''HDIV'', PStr ''D''), (''HVAR'', PStr ''D''),
     (''LRT'', PStr ''D''), (''MutationTaster'', PStr ''D''), (''FATHMM'', PStr ''T''),
     (''PROVEAN'', PStr ''N''), (''MKL'', PStr ''N''), (''SVM'', PNone), (''LR'', PNone)]"]
  by (simp add: calculate_adjusted_score_def)

text \<open>The call set that \<^verbatim>\<open>process\<close> builds has its 10 entries whenever it is built.\<close>

lemma read_fields_length: "read_fields record fs = Inr xs \<Longrightarrow> length xs = length fs"
  by (induction fs arbitrary: xs) (auto simp: bind_def split: sum.splits)

lemma read_impacts_scores_length:
  assumes "read_impacts_scores record = Inr xs"
  shows "length xs = 10"
proof -
  have "length xs = length impacts_fields"
    using assms unfolding read_impacts_scores_def by (rule read_fields_length)
  then show ?thesis
    by (simp add: impacts_fields_def)
qed

section \<open>The splicing impact classifier: the order of its rules\<close>

text \<open>
  A splice score set of the specification holds optional floating-point values: each of
  its three values is null or a number.
\<close>

fun numeric_or_null :: "pyval \<Rightarrow> bool" where
  "numeric_or_null (PStr s) = False"
| "numeric_or_null PNone = True"
| "numeric_or_null (PFloat f) = True"

text \<open>
  Claim C3. For every splice score set, indel flag and functional-region text, the
  classifier applies its rules in this order: RF present and at least 0.6 gives 3;
  else ADA present and at least 0.6 gives 4; else Zscore present, ADA and RF both
  absent and Zscore below -2.0 gives 5; else an indel whose region text
  case-insensitively contains "splicing" gives 6; else \<^verbatim>\<open>False\<close>. In particular RF wins
  with 3 when both RF and ADA qualify.
\<close>

theorem is_splice_impact_order:
  assumes "numeric_or_null (ADA s)" and "numeric_or_null (RF s)" and "numeric_or_null (Zscore s)"
  shows "is_splice_impact s indel (PStr txt) =
           Inr (if \<exists>f. RF s = PFloat f \<and> float_ge f 0.6 then PInt 3
                else if \<exists>f. ADA s = PFloat f \<and> float_ge f 0.6 then PInt 4
                else if \<exists>f. Zscore s = PFloat f \<and> ADA s = PNone \<and> RF s = PNone
                          \<and> float_lt f (- 2.0) then PInt 5
                else if indel \<and> contains_ci ''splicing'' txt then PInt 6
                else PFalse)
         \<and> ((\<exists>f. RF s = PFloat f \<and> float_ge f 0.6) \<and> (\<exists>f. ADA s = PFloat f \<and> float_ge f 0.6)
              \<longrightarrow> is_splice_impact s indel (PStr txt) = Inr (PInt 3))"
  using assms
  by (cases "ADA s"; cases "RF s"; cases "Zscore s")
     (simp_all add: is_splice_impact_def bind_def search_ignorecase_iff)

theorem is_splice_impact_order_witness:
  "numeric_or_null (PFloat (Fin 0.9)) \<and> numeric_or_null (PFloat (Fin 0.7)) \<and> numeric_or_null PNone \<and>
   is_splice_impact \<lparr>ADA = PFloat (Fin 0.9), RF = PFloat (Fin 0.7), Zscore = PNone\<rparr> False
     (PStr ''exonic'') = Inr (PInt 3)"
  using is_splice_impact_order
    [of "\<lparr>ADA = PFloat (Fin 0.9), RF = PFloat (Fin 0.7), Zscore = PNone\<rparr>" False "''exonic''"]
  by simp

text \<open>The examples of the specification, and the home-made rule.\<close>

lemma is_splice_impact_examples:
  "is_splice_impact \<lparr>ADA = PFloat (Fin 0.9), RF = PFloat (Fin 0.7), Zscore = PNone\<rparr> False
     (PStr ''exonic'') = Inr (PInt 3)"
  "is_splice_impact \<lparr>ADA = PNone, RF = PNone, Zscore = PFloat (Fin (- 3.0))\<rparr> False
     (PStr ''exonic'') = Inr (PInt 5)"
  "is_splice_impact \<lparr>ADA = PNone, RF = PNone, Zscore = PFloat (Fin (- 1.0))\<rparr> False
     (PStr ''exonic'') = Inr PFalse"
  "is_splice_impact \<lparr>ADA = PNone, RF = PNone, Zscore = PNone\<rparr> True
     (PStr ''exonic;splicing'') = Inr (PInt 6)"
  by code_simp+

section \<open>Example inputs\<close>

text \<open>
  A record in the shape the annotation tool writes: every predictor says something, five
  of the ten say "D", no splice score, no clinical significance, a missense variant in an
  exon.
\<close>

definition example_record :: vcf_record where
  "example_record =
     \<lparr>REF = ''A'', ALT = [''G''], is_indel = False,
      INFO = map_of
        [(''SIFT_pred'', [PStr ''D'']),
         (''Polyphen2_HDIV_pred'', [PStr ''D'']),
         (''Polyphen2_HVAR_pred'', [PStr ''D'']),
         (''LRT_pred'', [PStr ''D'']),
         (''MutationTaster_pred'', [PStr ''D'']),
         (''FATHMM_pred'', [PStr ''T'']),
         (''PROVEAN_pred'', [PStr ''N'']),
         (''fathmm-MKL_coding_pred'', [PStr ''N'']),
         (''MetaSVM_pred'', [PStr ''T'']),
         (''MetaLR_pred'', [PStr ''T'']),
         (''dbscSNV_ADA_SCORE'', [PNone]),
         (''dbscSNV_RF_SCORE'', [PNone]),
         (''dpsi_zscore'', [PNone]),
         (''CLNSIG'', [PNone]),
         (''Func.refGene'', [PStr ''exonic'']),
         (''ExonicFunc.refGene'', [PStr ''nonsynonymous_SNV''])]\<rparr>"

text \<open>The same record with a second alternate allele.\<close>

definition two_alternates :: vcf_record where
  "two_alternates = example_record\<lparr>ALT := [''G'', ''T'']\<rparr>"

text \<open>A header that declares every required annotation but \<^verbatim>\<open>CLNSIG\<close>.\<close>

definition header_without_CLNSIG :: "string list" where
  "header_without_CLNSIG =
     [''ExonicFunc.refGene'', ''Func.refGene'', ''dbscSNV_ADA_SCORE'', ''dbscSNV_RF_SCORE'',
      ''dpsi_zscore'', ''SIFT_pred'', ''Polyphen2_HDIV_pred'', ''Polyphen2_HVAR_pred'',
      ''LRT_pred'', ''MutationTaster_pred'', ''FATHMM_pred'', ''PROVEAN_pred'',
      ''fathmm-MKL_coding_pred'', ''MetaSVM_pred'', ''MetaLR_pred'']"

text \<open>The second end-to-end example of the specification, step by step.\<close>

lemma example_fields:
  "info_first example_record ''SIFT_pred'' = Inr (PStr ''D'')"
  "info_first example_record ''Polyphen2_HDIV_pred'' = Inr (PStr ''D'')"
  "info_first example_record ''Polyphen2_HVAR_pred'' = Inr (PStr ''D'')"
  "info_first example_record ''LRT_pred'' = Inr (PStr ''D'')"
  "info_first example_record ''MutationTaster_pred'' = Inr (PStr ''D'')"
  "info_first example_record ''FATHMM_pred'' = Inr (PStr ''T'')"
  "info_first example_record ''PROVEAN_pred'' = Inr (PStr ''N'')"
  "info_first example_record ''fathmm-MKL_coding_pred'' = Inr (PStr ''N'')"
  "info_first example_record ''MetaSVM_pred'' = Inr (PStr ''T'')"
  "info_first example_record ''MetaLR_pred'' = Inr (PStr ''T'')"
  "info_first example_record ''dbscSNV_ADA_SCORE'' = Inr PNone"
  "info_first example_record ''dbscSNV_RF_SCORE'' = Inr PNone"
  "info_first example_record ''dpsi_zscore'' = Inr PNone"
  "info_first example_record ''CLNSIG'' = Inr PNone"
  "info_first example_record ''Func.refGene'' = Inr (PStr ''exonic'')"
  "info_first example_record ''ExonicFunc.refGene'' = Inr (PStr ''nonsynonymous_SNV'')"
  by (simp_all add: info_first_def example_record_def)

lemma example_calls:
  "read_impacts_scores example_record =
     Inr [(''SIFT'', PStr ''D''), (''HDIV'', PStr ''D''), (''HVAR'', PStr ''D''),
          (''LRT'', PStr ''D''), (''MutationTaster'', PStr ''D''), (''FATHMM'', PStr ''T''),
          (''PROVEAN'', PStr ''N''), (''MKL'', PStr ''N''), (''SVM'', PStr ''T''),
          (''LR'', PStr ''T'')]"
  by (simp add: read_impacts_scores_def impacts_fields_def example_fields)

lemma example_splices:
  "read_splices_scores example_record = Inr \<lparr>ADA = PNone, RF = PNone, Zscore = PNone\<rparr>"
  by (simp add: read_splices_scores_def example_fields)

lemma example_classifiers:
  "is_clinvar_pathogenic PNone = Inr PFalse"
  "is_splice_impact \<lparr>ADA = PNone, RF = PNone, Zscore = PNone\<rparr> False (PStr ''exonic'') = Inr PFalse"
  "search_ignorecase ''exonic'' ''exonic''"
  "is_stop_impact (PStr ''nonsynonymous_SNV'') = Inr PFalse"
  "is_frameshift_impact (PStr ''nonsynonymous_SNV'') = Inr PFalse"
  "is_missense_impact (PStr ''nonsynonymous_SNV'') = Inr (PInt 7)"
  "is_unknown_impact (PStr ''nonsynonymous_SNV'') = Inr PFalse"
  by code_simp+

lemma example_flags:
  "meta_impact_of example_record \<lparr>ADA = PNone, RF = PNone, Zscore = PNone\<rparr> =
     Inr [(''clinvar_pathogenicity'', PFalse), (''splice_impact'', PFalse),
          (''stop_impact'', PFalse), (''frameshift_impact'', PFalse),
          (''unknown_impact'', PFalse), (''missense_impact'', PInt 7)]"
proof -
  have "is_indel example_record = False"
    by (simp add: example_record_def)
  then show ?thesis
    by (simp add: meta_impact_of_def example_fields example_classifiers meta_impact_init_def)
qed

lemma example_score:
  "calculate_adjusted_score
     [(''SIFT'', PStr ''D''), (''HDIV'', PStr ''D''), (''HVAR'', PStr ''D''),
      (''LRT'', PStr ''D''), (''MutationTaster'', PStr ''D''), (''FATHMM'', PStr ''T''),
      (''PROVEAN'', PStr ''N''), (''MKL'', PStr ''N''), (''SVM'', PStr ''T''),
      (''LR'', PStr ''T'')] =
   \<lparr>adjusted = 5, available = 10, deleterious = 5, final_score = None\<rparr>"
  by (simp add: calculate_adjusted_score_def)

lemma process_record_example:
  "process_record example_record = Inr
     \<lparr>variant = example_record, MPA_impact = ''missense_impact'', MPA_ranking = PInt 7,
      MPA_adjusted = 5, MPA_available = 10, MPA_deleterious = 5, MPA_final_score = Some 5\<rparr>"
  by (simp add: process_record_def example_calls example_splices example_flags example_score
      rank_record_def ranking_step_def truthy_def)

section \<open>The check of the header\<close>

lemma set_foldl_infos_update: "set (foldl infos_update infos keys) = set infos \<union> set keys"
  by (induction keys arbitrary: infos) (auto simp: infos_update_def)

lemma vcf_keys_not_mpa: "key \<in> set vcf_keys \<Longrightarrow> key \<notin> set mpa_infos"
  by (auto simp: vcf_keys_def mpa_infos_def)

lemma vcf_keys_in_infos:
  "set vcf_keys \<subseteq> set (foldl infos_update header mpa_infos) \<longleftrightarrow> set vcf_keys \<subseteq> set header"
  using vcf_keys_not_mpa by (auto simp: set_foldl_infos_update)

text \<open>The list of required names has 17 entries; \<^verbatim>\<open>FATHMM_pred\<close> stands in it twice.\<close>

lemma vcf_keys_count: "length vcf_keys = 17" "length (remdups vcf_keys) = 16"
  by (simp_all add: vcf_keys_def)

lemma process_header_fails:
  assumes "\<exists>key \<in> set vcf_keys. key \<notin> set header"
  shows "process header records =
           (Returned (Some 1),
            \<lparr>log = [Log_info ''Read VCF'', Log_info ''Check vcf annotations'',
                    Log_error annotation_message],
             written = []\<rparr>)"
proof -
  from assms have "\<not> set vcf_keys \<subseteq> set (foldl infos_update header mpa_infos)"
    unfolding vcf_keys_in_infos by blast
  then show ?thesis
    by (simp add: process_def check_annotation_def)
qed

text \<open>
  Claim C6. When one of the required annotation names is missing from the header of the
  file, the whole run fails before any record is processed: \<^verbatim>\<open>process\<close> returns 1, whatever
  the records are, and nothing is written. When all of them are there, the check of the
  header passes.
\<close>

theorem process_checks_header:
  "((\<exists>key \<in> set vcf_keys. key \<notin> set header) \<longrightarrow>
      process header records =
        (Returned (Some 1),
         \<lparr>log = [Log_info ''Read VCF'', Log_info ''Check vcf annotations'',
                 Log_error annotation_message],
          written = []\<rparr>)) \<and>
   ((\<forall>key \<in> set vcf_keys. key \<in> set header) \<longrightarrow>
      check_annotation (foldl infos_update header mpa_infos) = Inr () \<and>
      fst (process header records) \<noteq> Returned (Some 1))"
proof (intro conjI impI)
  assume "\<exists>key \<in> set vcf_keys. key \<notin> set header"
  then show "process header records =
        (Returned (Some 1),
         \<lparr>log = [Log_info ''Read VCF'', Log_info ''Check vcf annotations'',
                 Log_error annotation_message],
          written = []\<rparr>)"
    by (rule process_header_fails)
next
  assume "\<forall>key \<in> set vcf_keys. key \<in> set header"
  then have sub: "set vcf_keys \<subseteq> set (foldl infos_update header mpa_infos)"
    unfolding vcf_keys_in_infos by blast
  then show "check_annotation (foldl infos_update header mpa_infos) = Inr ()"
    by (simp add: check_annotation_def)
  show "fst (process header records) \<noteq> Returned (Some 1)"
    using sub by (simp add: process_def check_annotation_def split: prod.splits option.splits)
qed

theorem process_checks_header_witness:
  "''CLNSIG'' \<in> set vcf_keys \<and> ''CLNSIG'' \<notin> set header_without_CLNSIG \<and>
   process header_without_CLNSIG [example_record] =
     (Returned (Some 1),
      \<lparr>log = [Log_info ''Read VCF'', Log_info ''Check vcf annotations'',
              Log_error annotation_message],
       written = []\<rparr>) \<and>
   set vcf_keys \<subseteq> set vcf_keys \<and>
   check_annotation (foldl infos_update vcf_keys mpa_infos) = Inr ()"
proof -
  have a: "''CLNSIG'' \<in> set vcf_keys" "''CLNSIG'' \<notin> set header_without_CLNSIG"
    by (simp_all add: vcf_keys_def header_without_CLNSIG_def)
  then have "\<exists>key \<in> set vcf_keys. key \<notin> set header_without_CLNSIG"
    by blast
  with a process_checks_header [of header_without_CLNSIG "[example_record]"]
    process_checks_header [of vcf_keys "[]"]
  show ?thesis by simp
qed

section \<open>The exit status of a failed run\<close>

text \<open>
  Claim C7 asks for a non-zero exit status, after the cause is logged, when the input
  lacks a required annotation. The script logs the cause and \<^verbatim>\<open>process\<close> returns 1, but the
  main block does not use that value: the script runs to its end and the exit status
  is 0.
\<close>

theorem main_exit_status_missing_annotation:
  "(\<exists>key \<in> set vcf_keys. key \<notin> set header) \<longrightarrow>
     fst (process header records) = Returned (Some 1) \<and>
     Log_error annotation_message \<in> set (run_log (main argv header records)) \<and>
     exit_status (main argv header records) = 0"
proof
  assume "\<exists>key \<in> set vcf_keys. key \<notin> set header"
  then have "process header records =
           (Returned (Some 1),
            \<lparr>log = [Log_info ''Read VCF'', Log_info ''Check vcf annotations'',
                    Log_error annotation_message],
             written = []\<rparr>)"
    by (rule process_header_fails)
  then show "fst (process header records) = Returned (Some 1) \<and>
     Log_error annotation_message \<in> set (run_log (main argv header records)) \<and>
     exit_status (main argv header records) = 0"
    by (simp add: main_def)
qed

theorem main_exit_status_missing_annotation_witness:
  "''CLNSIG'' \<in> set vcf_keys \<and> ''CLNSIG'' \<notin> set header_without_CLNSIG \<and>
   exit_status (main [''MPA.py'', ''-i'', ''in.vcf'', ''-o'', ''out.vcf''] header_without_CLNSIG
     [example_record]) = 0"
proof -
  have a: "''CLNSIG'' \<in> set vcf_keys" "''CLNSIG'' \<notin> set header_without_CLNSIG"
    by (simp_all add: vcf_keys_def header_without_CLNSIG_def)
  then have "\<exists>key \<in> set vcf_keys. key \<notin> set header_without_CLNSIG"
    by blast
  with a main_exit_status_missing_annotation
    [of header_without_CLNSIG "[example_record]"
        "[''MPA.py'', ''-i'', ''in.vcf'', ''-o'', ''out.vcf'']"]
  show ?thesis by simp
qed

text \<open>The whole run on that input.\<close>

lemma main_missing_annotation_example:
  "main [''MPA.py'', ''-i'', ''in.vcf'', ''-o'', ''out.vcf''] header_without_CLNSIG [example_record] =
     \<lparr>exit_status = 0,
      run_log = [Log_info ''Start MPA annotation'',
                 Log_info ''Command: MPA.py -i in.vcf -o out.vcf'',
                 Log_info ''Read VCF'', Log_info ''Check vcf annotations'',
                 Log_error annotation_message,
                 Log_info ''End MPA annotation''],
      run_written = []\<rparr>"
  by (simp add: main_def process_def check_annotation_def header_without_CLNSIG_def vcf_keys_def
      mpa_infos_def infos_update_def)

section \<open>Records with several alleles\<close>

text \<open>A reference allele splits into more than one value exactly when it holds a comma.\<close>

lemma split_comma_length: "length (split_comma s) > 1 \<longleftrightarrow> CHR '','' \<in> set s"
proof (induction s)
  case Nil
  show ?case by simp
next
  case (Cons c cs)
  have "split_comma cs \<noteq> []" by (cases cs) auto
  then have "length (tl (split_comma cs)) > 0 \<longleftrightarrow> length (split_comma cs) > 1"
    by (cases "split_comma cs") auto
  with Cons show ?case
    using \<open>split_comma cs \<noteq> []\<close> by auto
qed

lemma process_record_variant: "process_record record = Inr out \<Longrightarrow> variant out = record"
  by (auto simp: process_record_def rank_record_def bind_def Let_def split: sum.splits)

text \<open>The loop only ever writes records that passed the check.\<close>

lemma process_records_written:
  "process_records records st = (e, st') \<Longrightarrow> out \<in> set (written st') \<Longrightarrow>
   out \<in> set (written st) \<or> check_split_variants (variant out) = Inr ()"
proof (induction records arbitrary: st)
  case Nil
  then show ?case by simp
next
  case (Cons r rest)
  show ?case
  proof (cases "check_split_variants r")
    case (Inl msg)
    with Cons.prems have "process_records rest
        (st\<lparr>log := log st @ [Log_error_record r, Log_error msg]\<rparr>) = (e, st')"
      by simp
    from Cons.IH [OF this Cons.prems(2)] show ?thesis by simp
  next
    case (Inr u)
    show ?thesis
    proof (cases "process_record r")
      case (Inl err)
      with Inr Cons.prems show ?thesis by simp
    next
      case ok: (Inr res)
      with Inr Cons.prems have "process_records rest (st\<lparr>written := written st @ [res]\<rparr>) = (e, st')"
        by simp
      from Cons.IH [OF this Cons.prems(2)] process_record_variant [OF ok] Inr
      show ?thesis by auto
    qed
  qed
qed

text \<open>
  Claim C8. A record whose reference allele holds more than one comma-separated value,
  or that has more than one alternate allele, is logged with its content and skipped:
  the loop goes on with the next record from a state where only the log has grown. So
  no record of the output of a run has several reference values or several alternates.
\<close>

theorem multi_allelic_record_skipped:
  "(length (split_comma (REF record)) > 1 \<or> length (ALT record) > 1 \<longrightarrow>
      process_records (record # rest) st =
        process_records rest
          (st\<lparr>log := log st @
             [Log_error_record record,
              Log_error (if length (split_comma (REF record)) > 1 then multi_ref_message
                         else multi_alt_message)]\<rparr>)) \<and>
   (\<forall>out \<in> set (written (snd (process header records))).
      length (split_comma (REF (variant out))) \<le> 1 \<and> length (ALT (variant out)) \<le> 1)"
proof (intro conjI impI ballI)
  assume "length (split_comma (REF record)) > 1 \<or> length (ALT record) > 1"
  then show "process_records (record # rest) st =
        process_records rest
          (st\<lparr>log := log st @
             [Log_error_record record,
              Log_error (if length (split_comma (REF record)) > 1 then multi_ref_message
                         else multi_alt_message)]\<rparr>)"
    by (auto simp: check_split_variants_def)
next
  fix out
  assume out: "out \<in> set (written (snd (process header records)))"
  have "check_split_variants (variant out) = Inr ()"
  proof (cases "check_annotation (foldl infos_update header mpa_infos)")
    case (Inl msg)
    with out show ?thesis by (simp add: process_def)
  next
    case (Inr u)
    let ?st = "\<lparr>log = [Log_info ''Read VCF'', Log_info ''Check vcf annotations'',
                       Log_info ''Read the each variants''], written = []\<rparr>"
    obtain e st' where run: "process_records records ?st = (e, st')"
      by (cases "process_records records ?st")
    with Inr have "snd (process header records) = st'"
      by (simp add: process_def split: option.splits)
    with out process_records_written [OF run, of out] show ?thesis by simp
  qed
  then show "length (split_comma (REF (variant out))) \<le> 1"
    and "length (ALT (variant out)) \<le> 1"
    by (simp_all add: check_split_variants_def split: if_splits)
qed

theorem multi_allelic_record_skipped_witness:
  "length (ALT two_alternates) > 1 \<and>
   process_records [two_alternates, example_record] \<lparr>log = [], written = []\<rparr> =
     process_records [example_record]
       \<lparr>log = [Log_error_record two_alternates, Log_error multi_alt_message], written = []\<rparr> \<and>
   length (written (snd (process vcf_keys [two_alternates, example_record]))) = 1 \<and>
   list_all (\<lambda>out. length (ALT (variant out)) \<le> 1)
     (written (snd (process vcf_keys [two_alternates, example_record])))"
proof -
  have a: "length (ALT two_alternates) > 1" "\<not> length (split_comma (REF two_alternates)) > 1"
    by (simp_all add: two_alternates_def example_record_def)
  have b: "length (written (snd (process vcf_keys [two_alternates, example_record]))) = 1"
    by code_simp
  from a b multi_allelic_record_skipped
    [of two_alternates "[example_record]" "\<lparr>log = [], written = []\<rparr>" vcf_keys
        "[two_alternates, example_record]"]
  show ?thesis by (simp add: list_all_iff)
qed

section \<open>Null annotation values\<close>

text \<open>The example record with a null functional region (\<^verbatim>\<open>Func.refGene=.\<close> in the file).\<close>

definition null_region :: vcf_record where
  "null_region = example_record\<lparr>INFO := (INFO example_record)(''Func.refGene'' \<mapsto> [PNone])\<rparr>"

lemma is_splice_impact_null: "is_splice_impact s indel PNone \<noteq> Inr v"
  by (auto simp: is_splice_impact_def bind_Inr_iff)

lemma meta_impact_of_null:
  assumes "info_first record ''Func.refGene'' = Inr PNone"
  shows "meta_impact_of record s \<noteq> Inr m"
  using assms by (auto simp: meta_impact_of_def bind_Inr_iff is_splice_impact_null)

text \<open>
  Claim C9 says that a null first value in any annotation the script reads, the
  functional region \<^verbatim>\<open>Func.refGene\<close> included, is absent data and never raises. For the
  functional region the script does otherwise: the region goes to \<^verbatim>\<open>re.search\<close> without a
  test for \<^verbatim>\<open>None\<close>, so a record with a null region is never processed; its exception
  is not caught and ends the loop over the records.
\<close>

theorem null_region_raises:
  "info_first record ''Func.refGene'' = Inr PNone \<longrightarrow>
     (\<exists>e. process_record record = Inl e) \<and>
     (check_split_variants record = Inr () \<longrightarrow>
        (\<exists>e. process_records (record # rest) st = (Some e, st)))"
proof
  assume null: "info_first record ''Func.refGene'' = Inr PNone"
  have "process_record record \<noteq> Inr out" for out
    using meta_impact_of_null [OF null]
    by (auto simp: process_record_def bind_Inr_iff Let_def)
  then obtain e where e: "process_record record = Inl e"
    by (cases "process_record record") auto
  then show "(\<exists>e. process_record record = Inl e) \<and>
     (check_split_variants record = Inr () \<longrightarrow>
        (\<exists>e. process_records (record # rest) st = (Some e, st)))"
    by auto
qed

text \<open>The run on the example: \<^verbatim>\<open>TypeError\<close>, nothing written, exit status 1.\<close>

lemma null_region_fields:
  "info_first null_region ''Func.refGene'' = Inr PNone"
  "key \<noteq> ''Func.refGene'' \<Longrightarrow> info_first null_region key = info_first example_record key"
  by (simp_all add: info_first_def null_region_def)

lemma null_region_flags:
  "meta_impact_of null_region \<lparr>ADA = PNone, RF = PNone, Zscore = PNone\<rparr> = Inl TypeError"
  by (simp add: meta_impact_of_def null_region_fields example_fields example_classifiers
      is_splice_impact_def)

lemma null_region_record: "process_record null_region = Inl TypeError"
proof -
  have "read_impacts_scores null_region = read_impacts_scores example_record"
    by (simp add: read_impacts_scores_def impacts_fields_def null_region_fields)
  moreover have "read_splices_scores null_region = read_splices_scores example_record"
    by (simp add: read_splices_scores_def null_region_fields)
  ultimately show ?thesis
    by (simp add: process_record_def example_calls example_splices null_region_flags)
qed

lemma null_region_check: "check_split_variants null_region = Inr ()"
  by (simp add: check_split_variants_def null_region_def example_record_def)

lemma null_region_run:
  "process vcf_keys [null_region, example_record] =
     (Raised TypeError,
      \<lparr>log = [Log_info ''Read VCF'', Log_info ''Check vcf annotations'',
              Log_info ''Read the each variants''],
       written = []\<rparr>)"
  by (simp add: process_def check_annotation_def set_foldl_infos_update
      null_region_check null_region_record)

lemma null_region_exit:
  "exit_status (main [''MPA.py'', ''-i'', ''in.vcf'', ''-o'', ''out.vcf''] vcf_keys
     [null_region, example_record]) = 1"
  by (simp add: main_def null_region_run)

theorem null_region_raises_witness:
  "info_first null_region ''Func.refGene'' = Inr PNone \<and>
   check_split_variants null_region = Inr () \<and>
   process_record null_region = Inl TypeError \<and>
   process_records [null_region, example_record] \<lparr>log = [], written = []\<rparr> =
     (Some TypeError, \<lparr>log = [], written = []\<rparr>)"
  using null_region_raises [of null_region "[example_record]" "\<lparr>log = [], written = []\<rparr>"]
    null_region_fields(1) null_region_check null_region_record
  by simp

text \<open>
  A null anywhere else is absent data, as the claim says: a record is processed whenever
  it carries a first value for every required annotation, its region is a text, its
  clinical significance and exonic function are texts or null, and its splice scores
  are numbers or null. The predictor calls may be anything.
\<close>

fun text_or_null :: "pyval \<Rightarrow> bool" where
  "text_or_null (PStr s) = True"
| "text_or_null PNone = True"
| "text_or_null (PFloat f) = False"

lemma read_fields_returns:
  "\<forall>(name, key) \<in> set fs. \<exists>v. info_first record key = Inr v \<Longrightarrow>
   \<exists>xs. read_fields record fs = Inr xs"
  by (induction fs) auto

lemma is_clinvar_pathogenic_returns:
  "text_or_null c \<Longrightarrow> \<exists>v. is_clinvar_pathogenic c = Inr v"
  by (cases c) (simp_all add: is_clinvar_pathogenic_def)

lemma is_splice_impact_returns:
  "numeric_or_null (ADA s) \<Longrightarrow> numeric_or_null (RF s) \<Longrightarrow> numeric_or_null (Zscore s) \<Longrightarrow>
   \<exists>v. is_splice_impact s indel (PStr txt) = Inr v"
  by (cases "ADA s"; cases "RF s"; cases "Zscore s") (simp_all add: is_splice_impact_def)

lemma process_record_returns:
  assumes fields: "\<forall>key \<in> set vcf_keys. \<exists>v. info_first record key = Inr v"
    and region: "info_first record ''Func.refGene'' = Inr (PStr txt)"
    and clnsig: "info_first record ''CLNSIG'' = Inr c" "text_or_null c"
    and exonic: "info_first record ''ExonicFunc.refGene'' = Inr e" "text_or_null e"
    and ada: "info_first record ''dbscSNV_ADA_SCORE'' = Inr a" "numeric_or_null a"
    and rf: "info_first record ''dbscSNV_RF_SCORE'' = Inr r" "numeric_or_null r"
    and zscore: "info_first record ''dpsi_zscore'' = Inr z" "numeric_or_null z"
  shows "\<exists>out. process_record record = Inr out"
proof -
  have "\<forall>(name, key) \<in> set impacts_fields. \<exists>v. info_first record key = Inr v"
    using fields by (simp add: impacts_fields_def vcf_keys_def)
  then obtain xs where xs: "read_impacts_scores record = Inr xs"
    unfolding read_impacts_scores_def using read_fields_returns by blast
  have sc: "read_splices_scores record = Inr \<lparr>ADA = a, RF = r, Zscore = z\<rparr>"
    using ada rf zscore by (simp add: read_splices_scores_def)
  obtain cv where cv: "is_clinvar_pathogenic c = Inr cv"
    using is_clinvar_pathogenic_returns [OF clnsig(2)] by blast
  obtain sv where sv: "is_splice_impact \<lparr>ADA = a, RF = r, Zscore = z\<rparr> (is_indel record) (PStr txt) = Inr sv"
    using is_splice_impact_returns [of "\<lparr>ADA = a, RF = r, Zscore = z\<rparr>"] ada rf zscore by auto
  have "\<exists>m. meta_impact_of record \<lparr>ADA = a, RF = r, Zscore = z\<rparr> = Inr m"
    using exonic(2)
    by (cases e)
       (simp_all add: meta_impact_of_def clnsig region cv sv exonic(1) Let_def
          is_stop_impact_def is_frameshift_impact_def is_missense_impact_def
          is_unknown_impact_def)
  then show ?thesis
    by (auto simp: process_record_def xs sc Let_def)
qed

section \<open>The exonic consequence classifier: when it applies\<close>

lemma map_of_dict_set: "map_of (dict_set m k v) = (map_of m)(k \<mapsto> v)"
  by (induction m) (auto simp: fun_eq_iff)

lemma exonic_returns:
  "is_stop_impact (PStr e) =
     Inr (if contains_ci ''stopgain'' e \<or> contains_ci ''stoploss'' e then PInt 2 else PFalse)"
  "is_frameshift_impact (PStr e) =
     Inr (if contains_ci ''frameshift'' e \<and> \<not> contains_ci ''nonframeshift'' e
          then PInt 2 else PFalse)"
  "is_missense_impact (PStr e) =
     Inr (if contains_ci ''nonsynonymous_SNV'' e then PInt 7 else PFalse)"
  "is_unknown_impact (PStr e) = Inr (if contains_ci ''unknown'' e then PInt 8 else PFalse)"
  by (simp_all add: is_stop_impact_def is_frameshift_impact_def is_missense_impact_def
      is_unknown_impact_def search_ignorecase_iff)

lemma exonic_raises:
  "e \<noteq> PNone \<Longrightarrow> is_stop_impact e = Inr v \<Longrightarrow> \<exists>t. e = PStr t"
  by (cases e) (simp_all add: is_stop_impact_def)

text \<open>
  Claim C5. The four exonic flags (stop-impact 2 on "stopgain" or "stoploss",
  frameshift-impact 2 on "frameshift" without "nonframeshift", missense-impact 7 on
  "nonsynonymous_SNV", unknown-impact 8 on "unknown", letter case aside) are computed
  only when the functional-region text case-insensitively contains "exonic" and the
  exonic function is not null; otherwise the stop, frameshift and unknown flags are
  \<^verbatim>\<open>False\<close> and the missense flag is absent.
\<close>

theorem exonic_flags:
  assumes "meta_impact_of record s = Inr meta"
  shows "\<exists>txt. info_first record ''Func.refGene'' = Inr (PStr txt) \<and>
     (if contains_ci ''exonic'' txt \<and> info_first record ''ExonicFunc.refGene'' \<noteq> Inr PNone
      then \<exists>e. info_first record ''ExonicFunc.refGene'' = Inr (PStr e) \<and>
        map_of meta ''stop_impact'' =
          Some (if contains_ci ''stopgain'' e \<or> contains_ci ''stoploss'' e
                then PInt 2 else PFalse) \<and>
        map_of meta ''frameshift_impact'' =
          Some (if contains_ci ''frameshift'' e \<and> \<not> contains_ci ''nonframeshift'' e
                then PInt 2 else PFalse) \<and>
        map_of meta ''missense_impact'' =
          Some (if contains_ci ''nonsynonymous_SNV'' e then PInt 7 else PFalse) \<and>
        map_of meta ''unknown_impact'' =
          Some (if contains_ci ''unknown'' e then PInt 8 else PFalse)
      else
        map_of meta ''stop_impact'' = Some PFalse \<and>
        map_of meta ''frameshift_impact'' = Some PFalse \<and>
        map_of meta ''missense_impact'' = None \<and>
        map_of meta ''unknown_impact'' = Some PFalse)"
proof -
  from assms obtain clnsig clinvar func splice match_exonic exonic
    where func: "info_first record ''Func.refGene'' = Inr func"
      and splice: "is_splice_impact s (is_indel record) func = Inr splice"
      and m_ex: "re_search ''exonic'' func = Inr match_exonic"
      and cond: "(if match_exonic
           then bind (info_first record ''ExonicFunc.refGene'') (\<lambda>e. Inr (e \<noteq> PNone))
           else Inr False) = Inr exonic"
      and rest: "(let meta = dict_set (dict_set meta_impact_init ''clinvar_pathogenicity'' clinvar)
                  ''splice_impact'' splice
     in
       if exonic then
         bind (info_first record ''ExonicFunc.refGene'') (\<lambda>e.
         bind (is_stop_impact e) (\<lambda>stop.
         bind (is_frameshift_impact e) (\<lambda>frameshift.
         bind (is_missense_impact e) (\<lambda>missense.
         bind (is_unknown_impact e) (\<lambda>unknown.
           Inr (dict_set (dict_set (dict_set (dict_set meta
                  ''stop_impact'' stop)
                  ''frameshift_impact'' frameshift)
                  ''missense_impact'' missense)
                  ''unknown_impact'' unknown))))))
       else Inr meta) = Inr meta"
    unfolding meta_impact_of_def bind_Inr_iff by blast
  from m_ex obtain reg where reg: "func = PStr reg" "match_exonic = contains_ci ''exonic'' reg"
    by (cases func) (auto simp: search_ignorecase_iff)
  show ?thesis
  proof (cases exonic)
    case False
    with cond reg have no: "\<not> (contains_ci ''exonic'' reg \<and>
        info_first record ''ExonicFunc.refGene'' \<noteq> Inr PNone)"
      by (auto simp: bind_Inr_iff split: if_splits)
    from False rest have "meta = dict_set (dict_set meta_impact_init ''clinvar_pathogenicity'' clinvar)
                  ''splice_impact'' splice"
      by simp
    then have "map_of meta ''stop_impact'' = Some PFalse \<and>
        map_of meta ''frameshift_impact'' = Some PFalse \<and>
        map_of meta ''missense_impact'' = None \<and>
        map_of meta ''unknown_impact'' = Some PFalse"
      by (simp add: map_of_dict_set meta_impact_init_def)
    with no func reg show ?thesis by simp
  next
    case True
    with cond reg obtain e where e: "info_first record ''ExonicFunc.refGene'' = Inr e"
        "e \<noteq> PNone" "contains_ci ''exonic'' reg"
      by (auto simp: bind_Inr_iff split: if_splits)
    from True rest e obtain stop where "is_stop_impact e = Inr stop"
      by (auto simp: bind_Inr_iff)
    with e obtain t where t: "e = PStr t"
      using exonic_raises by blast
    from True rest e t have "meta = dict_set (dict_set (dict_set (dict_set
        (dict_set (dict_set meta_impact_init ''clinvar_pathogenicity'' clinvar)
                  ''splice_impact'' splice)
        ''stop_impact'' (if contains_ci ''stopgain'' t \<or> contains_ci ''stoploss'' t
                then PInt 2 else PFalse))
        ''frameshift_impact'' (if contains_ci ''frameshift'' t \<and> \<not> contains_ci ''nonframeshift'' t
                then PInt 2 else PFalse))
        ''missense_impact'' (if contains_ci ''nonsynonymous_SNV'' t then PInt 7 else PFalse))
        ''unknown_impact'' (if contains_ci ''unknown'' t then PInt 8 else PFalse)"
      by (simp add: exonic_returns)
    then have "map_of meta ''stop_impact'' =
          Some (if contains_ci ''stopgain'' t \<or> contains_ci ''stoploss'' t
                then PInt 2 else PFalse) \<and>
        map_of meta ''frameshift_impact'' =
          Some (if contains_ci ''frameshift'' t \<and> \<not> contains_ci ''nonframeshift'' t
                then PInt 2 else PFalse) \<and>
        map_of meta ''missense_impact'' =
          Some (if contains_ci ''nonsynonymous_SNV'' t then PInt 7 else PFalse) \<and>
        map_of meta ''unknown_impact'' =
          Some (if contains_ci ''unknown'' t then PInt 8 else PFalse)"
      by (simp add: map_of_dict_set)
    with e t func reg show ?thesis by simp
  qed
qed

theorem exonic_flags_witness:
  "meta_impact_of example_record \<lparr>ADA = PNone, RF = PNone, Zscore = PNone\<rparr> =
     Inr [(''clinvar_pathogenicity'', PFalse), (''splice_impact'', PFalse),
          (''stop_impact'', PFalse), (''frameshift_impact'', PFalse),
          (''unknown_impact'', PFalse), (''missense_impact'', PInt 7)] \<and>
   info_first example_record ''Func.refGene'' = Inr (PStr ''exonic'') \<and>
   contains_ci ''exonic'' ''exonic'' \<and>
   info_first example_record ''ExonicFunc.refGene'' = Inr (PStr ''nonsynonymous_SNV'') \<and>
   contains_ci ''nonsynonymous_SNV'' ''nonsynonymous_SNV'' \<and>
   \<not> contains_ci ''unknown'' ''nonsynonymous_SNV''"
proof -
  have ci: "contains_ci ''exonic'' ''exonic''"
    by (simp add: search_ignorecase_iff [symmetric] example_classifiers)
  from exonic_flags [OF example_flags] ci
  have "contains_ci ''nonsynonymous_SNV'' ''nonsynonymous_SNV'' \<and>
      \<not> contains_ci ''unknown'' ''nonsynonymous_SNV''"
    by (simp add: example_fields split: if_splits)
  with ci show ?thesis
    by (simp add: example_flags example_fields)
qed

text \<open>The examples of the specification.\<close>

lemma is_frameshift_impact_examples:
  "is_frameshift_impact (PStr ''frameshift_insertion'') = Inr (PInt 2)"
  "is_frameshift_impact (PStr ''nonframeshift_insertion'') = Inr PFalse"
  by code_simp+

section \<open>The impact flags of a record\<close>

text \<open>
  Whenever the impact flags of a record are built, they are these, in this order: the
  five flags of the display of \<^verbatim>\<open>meta_impact\<close>, then the missense flag when the exonic
  branch ran; each flag is \<^verbatim>\<open>False\<close> or one of the ranks of its classifier.
\<close>

definition flags_shape :: "(string \<times> pyflag) list \<Rightarrow> bool" where
  "flags_shape meta =
     (\<exists>cv sv st fs un ms.
        meta = [(''clinvar_pathogenicity'', cv), (''splice_impact'', sv), (''stop_impact'', st),
                (''frameshift_impact'', fs), (''unknown_impact'', un)] @ ms \<and>
        cv \<in> {PFalse, PInt 1} \<and> sv \<in> {PFalse, PInt 3, PInt 4, PInt 5, PInt 6} \<and>
        st \<in> {PFalse, PInt 2} \<and> fs \<in> {PFalse, PInt 2} \<and> un \<in> {PFalse, PInt 8} \<and>
        (ms = [] \<or> (\<exists>mv. ms = [(''missense_impact'', mv)] \<and> mv \<in> {PFalse, PInt 7})))"

lemma classifier_ranges:
  "is_clinvar_pathogenic c = Inr v \<Longrightarrow> v \<in> {PFalse, PInt 1}"
  "is_splice_impact s indel f = Inr v \<Longrightarrow> v \<in> {PFalse, PInt 3, PInt 4, PInt 5, PInt 6}"
  "is_stop_impact e = Inr v \<Longrightarrow> v \<in> {PFalse, PInt 2}"
  "is_frameshift_impact e = Inr v \<Longrightarrow> v \<in> {PFalse, PInt 2}"
  "is_missense_impact e = Inr v \<Longrightarrow> v \<in> {PFalse, PInt 7}"
  "is_unknown_impact e = Inr v \<Longrightarrow> v \<in> {PFalse, PInt 8}"
  by (auto simp: is_clinvar_pathogenic_def is_splice_impact_def is_stop_impact_def
      is_frameshift_impact_def is_missense_impact_def is_unknown_impact_def bind_Inr_iff Let_def
      split: if_splits)

lemma meta_impact_of_shape:
  assumes "meta_impact_of record s = Inr meta"
  shows "flags_shape meta"
proof -
  from assms obtain clnsig clinvar func splice exonic
    where cv: "is_clinvar_pathogenic clnsig = Inr clinvar"
      and sv: "is_splice_impact s (is_indel record) func = Inr splice"
      and rest: "(let meta = dict_set (dict_set meta_impact_init ''clinvar_pathogenicity'' clinvar)
                  ''splice_impact'' splice
     in
       if exonic then
         bind (info_first record ''ExonicFunc.refGene'') (\<lambda>e.
         bind (is_stop_impact e) (\<lambda>stop.
         bind (is_frameshift_impact e) (\<lambda>frameshift.
         bind (is_missense_impact e) (\<lambda>missense.
         bind (is_unknown_impact e) (\<lambda>unknown.
           Inr (dict_set (dict_set (dict_set (dict_set meta
                  ''stop_impact'' stop)
                  ''frameshift_impact'' frameshift)
                  ''missense_impact'' missense)
                  ''unknown_impact'' unknown))))))
       else Inr meta) = Inr meta"
    unfolding meta_impact_of_def bind_Inr_iff by blast
  note cr = classifier_ranges(1) [OF cv] classifier_ranges(2) [OF sv]
  show ?thesis
  proof (cases exonic)
    case False
    with rest have "meta = [(''clinvar_pathogenicity'', clinvar), (''splice_impact'', splice),
        (''stop_impact'', PFalse), (''frameshift_impact'', PFalse), (''unknown_impact'', PFalse)]"
      by (simp add: meta_impact_init_def)
    with cr show ?thesis
      unfolding flags_shape_def by simp
  next
    case True
    with rest obtain e stop frameshift missense unknown
      where ex: "is_stop_impact e = Inr stop" "is_frameshift_impact e = Inr frameshift"
        "is_missense_impact e = Inr missense" "is_unknown_impact e = Inr unknown"
        and "meta = dict_set (dict_set (dict_set (dict_set
           (dict_set (dict_set meta_impact_init ''clinvar_pathogenicity'' clinvar)
                  ''splice_impact'' splice)
                  ''stop_impact'' stop)
                  ''frameshift_impact'' frameshift)
                  ''missense_impact'' missense)
                  ''unknown_impact'' unknown"
      by (auto simp: bind_Inr_iff)
    then have "meta = [(''clinvar_pathogenicity'', clinvar), (''splice_impact'', splice),
        (''stop_impact'', stop), (''frameshift_impact'', frameshift), (''unknown_impact'', unknown),
        (''missense_impact'', missense)]"
      by (simp add: meta_impact_init_def)
    with cr classifier_ranges(3) [OF ex(1)] classifier_ranges(4) [OF ex(2)]
      classifier_ranges(5) [OF ex(3)] classifier_ranges(6) [OF ex(4)]
    show ?thesis
      unfolding flags_shape_def by simp
  qed
qed

lemma shape_truthy:
  "v \<in> {PFalse, PInt 1, PInt 2, PInt 3, PInt 4, PInt 5, PInt 6, PInt 7, PInt 8} \<Longrightarrow>
   truthy v \<longleftrightarrow> v \<noteq> PFalse"
  by (auto simp: truthy_def)

lemma shape_kind:
  assumes "flags_shape meta" and "(c, v) \<in> set meta"
  shows "truthy v \<longleftrightarrow> v \<noteq> PFalse"
    and "v \<noteq> PFalse \<Longrightarrow>
         (c = ''missense_impact'' \<or> c = ''unknown_impact'') \<longleftrightarrow> (v = PInt 7 \<or> v = PInt 8)"
proof -
  define ok where "ok c v \<longleftrightarrow>
     v \<in> {PFalse, PInt 1, PInt 2, PInt 3, PInt 4, PInt 5, PInt 6, PInt 7, PInt 8} \<and>
     (v \<noteq> PFalse \<longrightarrow>
         (c = ''missense_impact'' \<or> c = ''unknown_impact'') = (v = PInt 7 \<or> v = PInt 8))"
    for c :: string and v :: pyflag
  from assms(1) obtain cv sv st fs un ms where
    meta: "meta = [(''clinvar_pathogenicity'', cv), (''splice_impact'', sv), (''stop_impact'', st),
                (''frameshift_impact'', fs), (''unknown_impact'', un)] @ ms"
    and r: "cv \<in> {PFalse, PInt 1}" "sv \<in> {PFalse, PInt 3, PInt 4, PInt 5, PInt 6}"
        "st \<in> {PFalse, PInt 2}" "fs \<in> {PFalse, PInt 2}" "un \<in> {PFalse, PInt 8}"
    and ms: "ms = [] \<or> (\<exists>mv. ms = [(''missense_impact'', mv)] \<and> mv \<in> {PFalse, PInt 7})"
    unfolding flags_shape_def by blast
  have 1: "ok ''clinvar_pathogenicity'' cv"
    unfolding ok_def using r(1) by auto
  have 2: "ok ''splice_impact'' sv"
    unfolding ok_def using r(2) by auto
  have 3: "ok ''stop_impact'' st"
    unfolding ok_def using r(3) by auto
  have 4: "ok ''frameshift_impact'' fs"
    unfolding ok_def using r(4) by auto
  have 5: "ok ''unknown_impact'' un"
    unfolding ok_def using r(5) by auto
  have 6: "ok c' v'" if "(c', v') \<in> set ms" for c' v'
  proof -
    from ms that obtain mv where "c' = ''missense_impact''" "v' = mv" "mv \<in> {PFalse, PInt 7}"
      by auto
    then show ?thesis
      unfolding ok_def by auto
  qed
  have "\<forall>p \<in> set meta. ok (fst p) (snd p)"
    unfolding meta using 1 2 3 4 5 6 by (simp only: set_append set_simps) auto
  with assms(2) have "ok c v"
    by force
  then show "truthy v \<longleftrightarrow> v \<noteq> PFalse"
    and "v \<noteq> PFalse \<Longrightarrow>
         (c = ''missense_impact'' \<or> c = ''unknown_impact'') \<longleftrightarrow> (v = PInt 7 \<or> v = PInt 8)"
    unfolding ok_def using shape_truthy by blast+
qed

lemma shape_fired:
  assumes "flags_shape meta"
  shows "filter (\<lambda>(c, v). v \<noteq> PFalse) meta = filter (\<lambda>(c, v). truthy v) meta"
  using shape_kind(1) [OF assms] by (intro filter_cong) auto

section \<open>The ranking loop\<close>

lemma ranking_loop_step: "ranking_loop ((k, v) # m) st = ranking_loop m (ranking_step k v st)"
  by simp

lemma step_rank:
  "rank (ranking_step k v st) =
     (if truthy v \<and> (as_int v < as_int (rank st) \<or> \<not> truthy (rank st)) then v else rank st)"
  by (simp add: ranking_step_def Let_def)

lemma step_text:
  "impact_text (ranking_step k v st) =
     (if truthy v then impact_text st @ k @ '','' else impact_text st)"
  by (simp add: ranking_step_def Let_def)

lemma step_scores:
  "adjusted (scores (ranking_step k v st)) = adjusted (scores st)"
  "available (scores (ranking_step k v st)) = available (scores st)"
  "deleterious (scores (ranking_step k v st)) = deleterious (scores st)"
  by (simp_all add: ranking_step_def Let_def)

lemma step_final:
  "final_score (scores (ranking_step k v st)) =
     (if truthy v \<and> (as_int v < as_int (rank st) \<or> \<not> truthy (rank st))
      then Some (if k = ''unknown_impact'' \<or> k = ''missense_impact''
                 then adjusted (scores st) else 10)
      else final_score (scores st))"
  by (simp add: ranking_step_def Let_def)

lemma ranking_loop_text:
  "impact_text (ranking_loop m st) =
     impact_text st @ concat (map (\<lambda>(k, v). k @ '','') (filter (\<lambda>(k, v). truthy v) m))"
proof (induction m arbitrary: st)
  case Nil
  show ?case by simp
next
  case (Cons p m)
  obtain k v where p: "p = (k, v)" by (cases p)
  show ?case
    unfolding p ranking_loop_step Cons.IH by (simp add: step_text)
qed

lemma ranking_loop_scores:
  "adjusted (scores (ranking_loop m st)) = adjusted (scores st) \<and>
   available (scores (ranking_loop m st)) = available (scores st) \<and>
   deleterious (scores (ranking_loop m st)) = deleterious (scores st)"
proof (induction m arbitrary: st)
  case Nil
  show ?case by simp
next
  case (Cons p m)
  obtain k v where p: "p = (k, v)" by (cases p)
  show ?case
    unfolding p ranking_loop_step using Cons.IH [of "ranking_step k v st"]
    by (simp add: step_scores)
qed

lemma ranking_loop_truthy:
  "truthy (rank (ranking_loop m st)) \<longleftrightarrow> truthy (rank st) \<or> (\<exists>(k, v) \<in> set m. truthy v)"
proof (induction m arbitrary: st)
  case Nil
  show ?case by simp
next
  case (Cons p m)
  obtain k v where p: "p = (k, v)" by (cases p)
  show ?case
    unfolding p ranking_loop_step Cons.IH by (auto simp: step_rank)
qed

lemma ranking_loop_le_start:
  "truthy (rank st) \<Longrightarrow> as_int (rank (ranking_loop m st)) \<le> as_int (rank st)"
proof (induction m arbitrary: st)
  case Nil
  show ?case by simp
next
  case (Cons p m)
  obtain k v where p: "p = (k, v)" by (cases p)
  have "truthy (rank (ranking_step k v st))"
    and "as_int (rank (ranking_step k v st)) \<le> as_int (rank st)"
    using Cons.prems by (auto simp: step_rank)
  with Cons.IH [of "ranking_step k v st"] show ?case
    unfolding p ranking_loop_step by linarith
qed

lemma ranking_loop_le_fired:
  "(k, v) \<in> set m \<Longrightarrow> truthy v \<Longrightarrow> as_int (rank (ranking_loop m st)) \<le> as_int v"
proof (induction m arbitrary: st)
  case Nil
  then show ?case by simp
next
  case (Cons p m)
  obtain k' v' where p: "p = (k', v')" by (cases p)
  show ?case
  proof (cases "p = (k, v)")
    case True
    have "truthy (rank (ranking_step k v st))"
      and "as_int (rank (ranking_step k v st)) \<le> as_int v"
      using Cons.prems(2) by (auto simp: step_rank)
    with ranking_loop_le_start [of "ranking_step k v st" m] show ?thesis
      unfolding True ranking_loop_step by linarith
  next
    case False
    with Cons.prems have "(k, v) \<in> set m" by simp
    from Cons.IH [OF this Cons.prems(2)] show ?thesis
      unfolding p ranking_loop_step .
  qed
qed

lemma ranking_loop_winner:
  "(rank (ranking_loop m st) = rank st \<and>
      final_score (scores (ranking_loop m st)) = final_score (scores st)) \<or>
   (\<exists>(c, v) \<in> set m. truthy v \<and> rank (ranking_loop m st) = v \<and>
      final_score (scores (ranking_loop m st)) =
        Some (if c = ''unknown_impact'' \<or> c = ''missense_impact''
              then adjusted (scores st) else 10))"
proof -
  define pick where "pick a c =
    Some (if c = ''unknown_impact'' \<or> c = ''missense_impact'' then a else (10 :: rat))"
    for a :: rat and c :: string
  have "(rank (ranking_loop m st) = rank st \<and>
      final_score (scores (ranking_loop m st)) = final_score (scores st)) \<or>
   (\<exists>(c, v) \<in> set m. truthy v \<and> rank (ranking_loop m st) = v \<and>
      final_score (scores (ranking_loop m st)) = pick (adjusted (scores st)) c)"
  proof (induction m arbitrary: st)
    case Nil
    show ?case by simp
  next
    case (Cons p m)
    obtain k v where p: "p = (k, v)" by (cases p)
    let ?st1 = "ranking_step k v st"
    let ?end = "ranking_loop m ?st1"
    have adj: "adjusted (scores ?st1) = adjusted (scores st)"
      by (rule step_scores)
    have fin: "final_score (scores ?st1) =
       (if truthy v \<and> (as_int v < as_int (rank st) \<or> \<not> truthy (rank st))
        then pick (adjusted (scores st)) k else final_score (scores st))"
      unfolding pick_def by (rule step_final)
    from Cons.IH [of ?st1] consider
        (same) "rank ?end = rank ?st1" "final_score (scores ?end) = final_score (scores ?st1)"
      | (later) c w where "(c, w) \<in> set m" "truthy w" "rank ?end = w"
          "final_score (scores ?end) = pick (adjusted (scores st)) c"
      unfolding adj by blast
    then have "(rank ?end = rank st \<and> final_score (scores ?end) = final_score (scores st)) \<or>
       (\<exists>(c, w) \<in> set ((k, v) # m). truthy w \<and> rank ?end = w \<and>
          final_score (scores ?end) = pick (adjusted (scores st)) c)"
    proof cases
      case later
      then show ?thesis by auto
    next
      case same
      show ?thesis
      proof (cases "truthy v \<and> (as_int v < as_int (rank st) \<or> \<not> truthy (rank st))")
        case True
        have "rank ?st1 = v"
          unfolding step_rank by (rule if_P [OF True])
        moreover have "final_score (scores ?st1) = pick (adjusted (scores st)) k"
          unfolding fin by (rule if_P [OF True])
        moreover have "truthy v"
          using True by (rule conjunct1)
        ultimately show ?thesis
          using same by simp
      next
        case False
        have "rank ?st1 = rank st"
          unfolding step_rank by (rule if_not_P [OF False])
        moreover have "final_score (scores ?st1) = final_score (scores st)"
          unfolding fin by (rule if_not_P [OF False])
        ultimately show ?thesis
          using same by simp
      qed
    qed
    then show ?case
      unfolding p ranking_loop_step .
  qed
  then show ?thesis
    unfolding pick_def .
qed

lemma process_record_parts:
  assumes "process_record record = Inr out"
  obtains calls s meta where "read_impacts_scores record = Inr calls"
    and "read_splices_scores record = Inr s"
    and "meta_impact_of record s = Inr meta"
    and "out = rank_record record meta (calculate_adjusted_score calls)"
  using assms by (auto simp: process_record_def bind_Inr_iff Let_def)

lemma fired_empty_iff:
  "filter (\<lambda>(k, v). truthy v) m = [] \<longleftrightarrow> \<not> (\<exists>(k, v) \<in> set m. truthy v)"
  by (auto simp: filter_empty_conv)

lemma rank_record_scores:
  "MPA_adjusted (rank_record record meta sc) = adjusted sc"
  "MPA_available (rank_record record meta sc) = available sc"
  "MPA_deleterious (rank_record record meta sc) = deleterious sc"
  by (simp_all add: rank_record_def Let_def ranking_loop_scores)

lemma rank_record_none:
  assumes "filter (\<lambda>(k, v). truthy v) meta = []"
  shows "MPA_ranking (rank_record record meta sc) = PInt 8"
    and "MPA_impact (rank_record record meta sc) = ''NULL''"
    and "MPA_final_score (rank_record record meta sc) = Some (adjusted sc)"
proof -
  let ?st = "ranking_loop meta \<lparr>rank = PFalse, impact_text = [], scores = sc\<rparr>"
  from assms have "\<not> (\<exists>(k, v) \<in> set meta. truthy v)"
    by (simp add: fired_empty_iff)
  moreover have "\<not> truthy PFalse"
    by (simp add: truthy_def)
  ultimately have "\<not> truthy (rank ?st)"
    by (simp add: ranking_loop_truthy)
  then show "MPA_ranking (rank_record record meta sc) = PInt 8"
    and "MPA_impact (rank_record record meta sc) = ''NULL''"
    and "MPA_final_score (rank_record record meta sc) = Some (adjusted sc)"
    by (simp_all add: rank_record_def Let_def ranking_loop_scores)
qed

lemma rank_record_some:
  assumes "filter (\<lambda>(k, v). truthy v) meta \<noteq> []"
  shows "MPA_ranking (rank_record record meta sc) =
           rank (ranking_loop meta \<lparr>rank = PFalse, impact_text = [], scores = sc\<rparr>)"
    and "MPA_impact (rank_record record meta sc) =
           butlast (concat (map (\<lambda>(k, v). k @ '','') (filter (\<lambda>(k, v). truthy v) meta)))"
    and "MPA_final_score (rank_record record meta sc) =
           final_score (scores (ranking_loop meta \<lparr>rank = PFalse, impact_text = [], scores = sc\<rparr>))"
proof -
  let ?st = "ranking_loop meta \<lparr>rank = PFalse, impact_text = [], scores = sc\<rparr>"
  from assms have "truthy (rank ?st)"
    by (simp add: ranking_loop_truthy fired_empty_iff)
  then show "MPA_ranking (rank_record record meta sc) = rank ?st"
    and "MPA_impact (rank_record record meta sc) =
           butlast (concat (map (\<lambda>(k, v). k @ '','') (filter (\<lambda>(k, v). truthy v) meta)))"
    and "MPA_final_score (rank_record record meta sc) = final_score (scores ?st)"
    by (simp_all add: rank_record_def Let_def ranking_loop_text)
qed

section \<open>A record with a pathogenic clinical significance\<close>

text \<open>
  The example record with \<^verbatim>\<open>CLNSIG=Pathogenic\<close>: two categories fire, the clinical one
  wins with rank 1 and the final score is 10, not the adjusted score 5.
\<close>

definition pathogenic_record :: vcf_record where
  "pathogenic_record =
     example_record\<lparr>INFO := (INFO example_record)(''CLNSIG'' \<mapsto> [PStr ''Pathogenic''])\<rparr>"

definition pathogenic_flags :: "(string \<times> pyflag) list" where
  "pathogenic_flags =
     [(''clinvar_pathogenicity'', PInt 1), (''splice_impact'', PFalse),
      (''stop_impact'', PFalse), (''frameshift_impact'', PFalse),
      (''unknown_impact'', PFalse), (''missense_impact'', PInt 7)]"

definition pathogenic_output :: annotated where
  "pathogenic_output =
     \<lparr>variant = pathogenic_record, MPA_impact = ''clinvar_pathogenicity,missense_impact'',
      MPA_ranking = PInt 1, MPA_adjusted = 5, MPA_available = 10, MPA_deleterious = 5,
      MPA_final_score = Some 10\<rparr>"

lemma pathogenic_fields:
  "info_first pathogenic_record ''CLNSIG'' = Inr (PStr ''Pathogenic'')"
  "key \<noteq> ''CLNSIG'' \<Longrightarrow> info_first pathogenic_record key = info_first example_record key"
  by (simp_all add: info_first_def pathogenic_record_def)

lemma pathogenic_calls: "read_impacts_scores pathogenic_record = read_impacts_scores example_record"
  by (simp add: read_impacts_scores_def impacts_fields_def pathogenic_fields)

lemma pathogenic_splices:
  "read_splices_scores pathogenic_record = Inr \<lparr>ADA = PNone, RF = PNone, Zscore = PNone\<rparr>"
  by (simp add: read_splices_scores_def pathogenic_fields example_fields)

lemma pathogenic_meta:
  "meta_impact_of pathogenic_record \<lparr>ADA = PNone, RF = PNone, Zscore = PNone\<rparr> =
     Inr pathogenic_flags"
proof -
  have "is_indel pathogenic_record = False"
    by (simp add: pathogenic_record_def example_record_def)
  then show ?thesis
    by (simp add: meta_impact_of_def pathogenic_fields example_fields example_classifiers
        is_clinvar_pathogenic_examples meta_impact_init_def pathogenic_flags_def)
qed

lemma process_record_pathogenic: "process_record pathogenic_record = Inr pathogenic_output"
  by (simp add: process_record_def pathogenic_calls example_calls pathogenic_splices
      pathogenic_meta example_score rank_record_def ranking_step_def truthy_def
      pathogenic_flags_def pathogenic_output_def)

section \<open>The impact annotation\<close>

text \<open>
  The categories in the order of the flags mapping, and what it is for a category to
  have fired: its flag is in the mapping and is not \<^verbatim>\<open>False\<close>.
\<close>

definition category_order :: "string list" where
  "category_order =
     [''clinvar_pathogenicity'', ''splice_impact'', ''stop_impact'', ''frameshift_impact'',
      ''unknown_impact'', ''missense_impact'']"

definition fired_in :: "(string \<times> pyflag) list \<Rightarrow> string \<Rightarrow> bool" where
  "fired_in meta c = (case map_of meta c of Some v \<Rightarrow> v \<noteq> PFalse | None \<Rightarrow> False)"

lemma butlast_concat_join:
  "ks \<noteq> [] \<Longrightarrow> butlast (concat (map (\<lambda>k. k @ '','') ks)) = join '','' ks"
proof (induction ks)
  case Nil
  then show ?case by simp
next
  case (Cons k ks)
  show ?case
  proof (cases ks)
    case Nil
    then show ?thesis by (simp add: butlast_append)
  next
    case (Cons k' ks')
    with Cons.IH show ?thesis by (simp add: butlast_append)
  qed
qed

lemma shape_fired_names:
  assumes "flags_shape meta"
  shows "map fst (filter (\<lambda>(k, v). truthy v) meta) = filter (fired_in meta) category_order"
proof -
  from assms obtain cv sv st fs un ms where
    meta: "meta = [(''clinvar_pathogenicity'', cv), (''splice_impact'', sv), (''stop_impact'', st),
                (''frameshift_impact'', fs), (''unknown_impact'', un)] @ ms"
    and r: "cv \<in> {PFalse, PInt 1}" "sv \<in> {PFalse, PInt 3, PInt 4, PInt 5, PInt 6}"
        "st \<in> {PFalse, PInt 2}" "fs \<in> {PFalse, PInt 2}" "un \<in> {PFalse, PInt 8}"
    and ms: "ms = [] \<or> (\<exists>mv. ms = [(''missense_impact'', mv)] \<and> mv \<in> {PFalse, PInt 7})"
    unfolding flags_shape_def by blast
  have t: "truthy cv = (cv \<noteq> PFalse)" "truthy sv = (sv \<noteq> PFalse)" "truthy st = (st \<noteq> PFalse)"
    "truthy fs = (fs \<noteq> PFalse)" "truthy un = (un \<noteq> PFalse)"
    using r by (auto intro!: shape_truthy)
  have f: "fired_in meta ''clinvar_pathogenicity'' = (cv \<noteq> PFalse)"
    "fired_in meta ''splice_impact'' = (sv \<noteq> PFalse)"
    "fired_in meta ''stop_impact'' = (st \<noteq> PFalse)"
    "fired_in meta ''frameshift_impact'' = (fs \<noteq> PFalse)"
    "fired_in meta ''unknown_impact'' = (un \<noteq> PFalse)"
    by (simp_all add: meta fired_in_def)
  from ms show ?thesis
  proof
    assume empty: "ms = []"
    have "fired_in meta ''missense_impact'' = False"
      by (simp add: meta empty fired_in_def)
    then have "filter (fired_in meta) category_order =
        (if cv \<noteq> PFalse then [''clinvar_pathogenicity''] else []) @
        (if sv \<noteq> PFalse then [''splice_impact''] else []) @
        (if st \<noteq> PFalse then [''stop_impact''] else []) @
        (if fs \<noteq> PFalse then [''frameshift_impact''] else []) @
        (if un \<noteq> PFalse then [''unknown_impact''] else [])"
      unfolding category_order_def by (simp only: filter.simps f if_False append_Nil2) simp
    moreover have "map fst (filter (\<lambda>(k, v). truthy v) meta) =
        (if cv \<noteq> PFalse then [''clinvar_pathogenicity''] else []) @
        (if sv \<noteq> PFalse then [''splice_impact''] else []) @
        (if st \<noteq> PFalse then [''stop_impact''] else []) @
        (if fs \<noteq> PFalse then [''frameshift_impact''] else []) @
        (if un \<noteq> PFalse then [''unknown_impact''] else [])"
      unfolding meta empty by (simp only: filter.simps append_Nil2 append.simps case_prod_conv t) simp
    ultimately show ?thesis by (rule ssubst)
  next
    assume "\<exists>mv. ms = [(''missense_impact'', mv)] \<and> mv \<in> {PFalse, PInt 7}"
    then obtain mv where mv: "ms = [(''missense_impact'', mv)]" "mv \<in> {PFalse, PInt 7}"
      by blast
    then have tm: "truthy mv = (mv \<noteq> PFalse)"
      by (auto intro!: shape_truthy)
    have "fired_in meta ''missense_impact'' = (mv \<noteq> PFalse)"
      by (simp add: meta mv fired_in_def)
    then have "filter (fired_in meta) category_order =
        (if cv \<noteq> PFalse then [''clinvar_pathogenicity''] else []) @
        (if sv \<noteq> PFalse then [''splice_impact''] else []) @
        (if st \<noteq> PFalse then [''stop_impact''] else []) @
        (if fs \<noteq> PFalse then [''frameshift_impact''] else []) @
        (if un \<noteq> PFalse then [''unknown_impact''] else []) @
        (if mv \<noteq> PFalse then [''missense_impact''] else [])"
      unfolding category_order_def by (simp only: filter.simps f) simp
    moreover have "map fst (filter (\<lambda>(k, v). truthy v) meta) =
        (if cv \<noteq> PFalse then [''clinvar_pathogenicity''] else []) @
        (if sv \<noteq> PFalse then [''splice_impact''] else []) @
        (if st \<noteq> PFalse then [''stop_impact''] else []) @
        (if fs \<noteq> PFalse then [''frameshift_impact''] else []) @
        (if un \<noteq> PFalse then [''unknown_impact''] else []) @
        (if mv \<noteq> PFalse then [''missense_impact''] else [])"
      unfolding meta mv(1) by (simp only: filter.simps append.simps case_prod_conv t tm) simp
    ultimately show ?thesis by (rule ssubst)
  qed
qed

text \<open>
  Claim C10. For every processed record, \<^verbatim>\<open>MPA_impact\<close> lists the names of the categories
  that fired, joined by commas with no trailing comma, in the fixed order
  clinvar_pathogenicity, splice_impact, stop_impact, frameshift_impact, unknown_impact,
  missense_impact: the missense flag comes last, after the unknown flag, because it
  enters the mapping in the exonic branch only. When none fired the text is "NULL".
\<close>

theorem MPA_impact_order:
  assumes "process_record record = Inr out"
  shows "\<exists>s meta. read_splices_scores record = Inr s \<and> meta_impact_of record s = Inr meta \<and>
     MPA_impact out =
       (if filter (fired_in meta) category_order = [] then ''NULL''
        else join '','' (filter (fired_in meta) category_order))"
proof -
  from assms obtain calls s meta where s: "read_splices_scores record = Inr s"
    and meta: "meta_impact_of record s = Inr meta"
    and out: "out = rank_record record meta (calculate_adjusted_score calls)"
    by (rule process_record_parts)
  let ?F = "filter (\<lambda>(k, v). truthy v) meta"
  have names: "map fst ?F = filter (fired_in meta) category_order"
    using meta_impact_of_shape [OF meta] by (rule shape_fired_names)
  have "MPA_impact out =
       (if filter (fired_in meta) category_order = [] then ''NULL''
        else join '','' (filter (fired_in meta) category_order))"
  proof (cases "?F = []")
    case True
    with names have "filter (fired_in meta) category_order = []"
      by simp
    with rank_record_none(2) [OF True] show ?thesis
      unfolding out by simp
  next
    case False
    with names have ne: "filter (fired_in meta) category_order \<noteq> []"
      by (metis map_is_Nil_conv)
    have eq: "map (\<lambda>(k, v). k @ '','') ?F = map (\<lambda>k. k @ '','') (map fst ?F)"
      by (simp add: case_prod_beta)
    have "MPA_impact out = butlast (concat (map (\<lambda>(k, v). k @ '','') ?F))"
      unfolding out by (rule rank_record_some(2) [OF False])
    also have "\<dots> = butlast (concat (map (\<lambda>k. k @ '','') (map fst ?F)))"
      by (simp only: eq)
    also have "\<dots> = join '','' (filter (fired_in meta) category_order)"
      unfolding names using ne by (rule butlast_concat_join)
    finally show ?thesis
      using ne by simp
  qed
  with s meta show ?thesis by blast
qed

theorem MPA_impact_order_witness:
  "process_record pathogenic_record = Inr pathogenic_output \<and>
   meta_impact_of pathogenic_record \<lparr>ADA = PNone, RF = PNone, Zscore = PNone\<rparr> =
     Inr pathogenic_flags \<and>
   filter (fired_in pathogenic_flags) category_order =
     [''clinvar_pathogenicity'', ''missense_impact''] \<and>
   MPA_impact pathogenic_output = join '','' [''clinvar_pathogenicity'', ''missense_impact'']"
proof -
  have names: "filter (fired_in pathogenic_flags) category_order =
     [''clinvar_pathogenicity'', ''missense_impact'']"
    by (simp add: fired_in_def pathogenic_flags_def category_order_def)
  from MPA_impact_order [OF process_record_pathogenic]
  have "MPA_impact pathogenic_output =
      join '','' [''clinvar_pathogenicity'', ''missense_impact'']"
    unfolding pathogenic_splices pathogenic_meta by (auto simp: names pathogenic_meta)
  with names process_record_pathogenic pathogenic_meta show ?thesis
    by simp
qed

section \<open>The ranking resolver\<close>

text \<open>
  Claim C1. For every processed record, \<^verbatim>\<open>MPA_ranking\<close> is the least rank among the
  categories that fired (flag not \<^verbatim>\<open>False\<close>); the final score is the adjusted score when
  the category with that least rank is missense_impact or unknown_impact, and 10 for
  every other winning category; and when no category fired, the rank is 8, the impact
  text is "NULL" and the final score is the adjusted score. The adjusted score is the
  one of the deleteriousness aggregator on the predictor calls of the record.
\<close>

theorem ranking_resolver:
  assumes "process_record record = Inr out"
  shows "\<exists>calls s meta.
     read_impacts_scores record = Inr calls \<and> read_splices_scores record = Inr s \<and>
     meta_impact_of record s = Inr meta \<and>
     MPA_adjusted out = adjusted (calculate_adjusted_score calls) \<and>
     (let fired = filter (\<lambda>(c, v). v \<noteq> PFalse) meta in
        if fired = [] then
          MPA_ranking out = PInt 8 \<and> MPA_impact out = ''NULL'' \<and>
          MPA_final_score out = Some (MPA_adjusted out)
        else
          MPA_ranking out = PInt (Min (as_int ` snd ` set fired)) \<and>
          (\<forall>(c, v) \<in> set fired. v = MPA_ranking out \<longrightarrow>
             MPA_final_score out =
               Some (if c = ''missense_impact'' \<or> c = ''unknown_impact''
                     then MPA_adjusted out else 10)))"
proof -
  from assms obtain calls s meta where calls: "read_impacts_scores record = Inr calls"
    and s: "read_splices_scores record = Inr s"
    and meta: "meta_impact_of record s = Inr meta"
    and out: "out = rank_record record meta (calculate_adjusted_score calls)"
    by (rule process_record_parts)
  let ?sc = "calculate_adjusted_score calls"
  let ?fired = "filter (\<lambda>(c, v). v \<noteq> PFalse) meta"
  note shape = meta_impact_of_shape [OF meta]
  have fired: "?fired = filter (\<lambda>(c, v). truthy v) meta"
    using shape by (rule shape_fired)
  have adj: "MPA_adjusted out = adjusted ?sc"
    unfolding out by (rule rank_record_scores)
  have "if ?fired = [] then
          MPA_ranking out = PInt 8 \<and> MPA_impact out = ''NULL'' \<and>
          MPA_final_score out = Some (MPA_adjusted out)
        else
          MPA_ranking out = PInt (Min (as_int ` snd ` set ?fired)) \<and>
          (\<forall>(c, v) \<in> set ?fired. v = MPA_ranking out \<longrightarrow>
             MPA_final_score out =
               Some (if c = ''missense_impact'' \<or> c = ''unknown_impact''
                     then MPA_adjusted out else 10))"
  proof (cases "?fired = []")
    case True
    then have none: "filter (\<lambda>(c, v). truthy v) meta = []"
      unfolding fired .
    have "MPA_ranking out = PInt 8" "MPA_impact out = ''NULL''"
      "MPA_final_score out = Some (adjusted ?sc)"
      unfolding out by (rule rank_record_none [OF none])+
    with True adj show ?thesis by simp
  next
    case False
    then have some: "filter (\<lambda>(c, v). truthy v) meta \<noteq> []"
      unfolding fired .
    let ?init = "\<lparr>rank = PFalse, impact_text = [], scores = ?sc\<rparr>"
    let ?st = "ranking_loop meta ?init"
    have rk: "MPA_ranking out = rank ?st" and fin: "MPA_final_score out = final_score (scores ?st)"
      unfolding out by (rule rank_record_some [OF some])+
    have "truthy (rank ?st)"
      using some by (simp add: ranking_loop_truthy fired_empty_iff)
    then have "rank ?st \<noteq> rank ?init"
      by (auto simp: truthy_def)
    with ranking_loop_winner [of meta ?init]
    obtain c0 v0 where win: "(c0, v0) \<in> set meta" "truthy v0" "rank ?st = v0"
      "final_score (scores ?st) =
         Some (if c0 = ''unknown_impact'' \<or> c0 = ''missense_impact'' then adjusted ?sc else 10)"
      by auto
    have in_fired: "(c0, v0) \<in> set ?fired"
      unfolding fired using win(1,2) by simp
    have le: "as_int v0 \<le> as_int v" if "(c, v) \<in> set ?fired" for c v
    proof -
      from that have "(c, v) \<in> set meta" "truthy v"
        unfolding fired by simp_all
      from ranking_loop_le_fired [OF this, of ?init] win(3) show ?thesis
        by simp
    qed
    have "Min (as_int ` snd ` set ?fired) = as_int v0"
    proof (rule Min_eqI)
      show "finite (as_int ` snd ` set ?fired)" by simp
      show "as_int v0 \<in> as_int ` snd ` set ?fired"
        using in_fired by force
      show "as_int v0 \<le> y" if "y \<in> as_int ` snd ` set ?fired" for y
        using that le by auto
    qed
    moreover have "v0 = PInt (as_int v0)"
      using win(2) by (cases v0) (simp_all add: truthy_def)
    ultimately have rank_min: "MPA_ranking out = PInt (Min (as_int ` snd ` set ?fired))"
      unfolding rk win(3) by simp
    have tie: "MPA_final_score out =
               Some (if c = ''missense_impact'' \<or> c = ''unknown_impact''
                     then MPA_adjusted out else 10)"
      if "(c, v) \<in> set ?fired" "v = MPA_ranking out" for c v
    proof -
      from that have cv: "(c, v) \<in> set meta" "v \<noteq> PFalse" "v = v0"
        unfolding rk win(3) by simp_all
      from win(2) have "v0 \<noteq> PFalse"
        by (auto simp: truthy_def)
      from shape_kind(2) [OF shape cv(1) cv(2)] shape_kind(2) [OF shape win(1) this] cv(3)
      have "(c = ''missense_impact'' \<or> c = ''unknown_impact'') \<longleftrightarrow>
            (c0 = ''unknown_impact'' \<or> c0 = ''missense_impact'')"
        by blast
      then show ?thesis
        unfolding fin win(4) adj by simp
    qed
    from False rank_min tie show ?thesis
      by auto
  qed
  with calls s meta adj show ?thesis
    unfolding Let_def by blast
qed

theorem ranking_resolver_witness:
  "process_record pathogenic_record = Inr pathogenic_output \<and>
   meta_impact_of pathogenic_record \<lparr>ADA = PNone, RF = PNone, Zscore = PNone\<rparr> =
     Inr pathogenic_flags \<and>
   filter (\<lambda>(c, v). v \<noteq> PFalse) pathogenic_flags =
     [(''clinvar_pathogenicity'', PInt 1), (''missense_impact'', PInt 7)] \<and>
   MPA_ranking pathogenic_output = PInt (Min {1, 7}) \<and>
   MPA_final_score pathogenic_output = Some 10"
proof -
  have fired: "filter (\<lambda>(c, v). v \<noteq> PFalse) pathogenic_flags =
     [(''clinvar_pathogenicity'', PInt 1), (''missense_impact'', PInt 7)]"
    by (simp add: pathogenic_flags_def)
  from ranking_resolver [OF process_record_pathogenic]
  have "MPA_ranking pathogenic_output = PInt (Min {1, 7}) \<and>
     MPA_final_score pathogenic_output = Some 10"
    unfolding pathogenic_splices pathogenic_meta
    by (auto simp: fired pathogenic_meta pathogenic_output_def)
  with fired process_record_pathogenic pathogenic_meta show ?thesis
    by simp
qed

end
